theory Spec2Isabelle
  imports Main "HOL-Library.Multiset" "HOL-Library.Char_ord" "HOL-Library.List_Lexorder"
begin

section \<open>botogram: a shallow embedding of the dispatch core\<close>

text \<open>
  The development follows the three source files \<^verbatim>\<open>botogram/bot.py\<close>,
  \<^verbatim>\<open>botogram/hooks.py\<close> and \<^verbatim>\<open>botogram/payments.py\<close>. Python
  objects become records, mutation becomes state passing, exceptions become the left
  summand of a sum type, and the platform side effects (sending a message, calling the
  platform API, talking to the IPC service, invoking a user callable) are appended to a
  trace of events. A string is a list of characters with code points below 256. The
  classes whose \<^verbatim>\<open>call\<close> is not the one of a dispatch chain (callback, timer,
  chat-unavailable and memory-preparer hooks) and the sending of an invoice are left
  out: no property below is about them.
\<close>

subsection \<open>Python values, strings and generators\<close>

text \<open>
  A generator is consumed one element at a time and may never end: it is a lazy list.
\<close>

codatatype 'a generator = Exhausted | Yield 'a "'a generator"

datatype pyval =
    PNone
  | PBool bool
  | PInt int
  | PStr string
  | PList "pyval list"
  | PDict "(string \<times> pyval) list"
  | PIter "pyval generator"

datatype exn =
    ValueError string
  | NameError string
  | TypeError string
  | AttributeError string
  | KeyError string
  | UserError string

definition newline :: char where
  "newline = CHR 0x0A"

definition tab :: char where
  "tab = CHR 0x09"

definition space :: char where
  "space = CHR 0x20"

text \<open>\<^verbatim>\<open>str.split(sep)\<close> for a one-character separator: never an empty list.\<close>

fun split_on :: "char \<Rightarrow> string \<Rightarrow> string list" where
  "split_on sep [] = [[]]"
| "split_on sep (x # xs) =
     (if x = sep then [] # split_on sep xs
      else (case split_on sep xs of t # ts \<Rightarrow> (x # t) # ts | [] \<Rightarrow> [[x]]))"

text \<open>\<^verbatim>\<open>sep.join(parts)\<close>.\<close>

fun join :: "string \<Rightarrow> string list \<Rightarrow> string" where
  "join sep [] = []"
| "join sep [x] = x"
| "join sep (x # y # ys) = x @ sep @ join sep (y # ys)"

text \<open>\<^verbatim>\<open>text.replace(a, b)\<close> for one-character strings.\<close>

definition replace_char :: "char \<Rightarrow> char \<Rightarrow> string \<Rightarrow> string" where
  "replace_char a b s = map (\<lambda>c. if c = a then b else c) s"

text \<open>
  \<^verbatim>\<open>str.lower()\<close> on the code points below 256: the ASCII capitals and the
  capitals of the Latin-1 range (U+00C0 to U+00DE, but for the multiplication sign)
  move up by 32.
\<close>

definition lower_char :: "char \<Rightarrow> char" where
  "lower_char c =
     (if (CHR ''A'' \<le> c \<and> c \<le> CHR ''Z'') \<or>
         (CHR 0xC0 \<le> c \<and> c \<le> CHR 0xDE \<and> c \<noteq> CHR 0xD7)
      then char_of (of_char c + (32::nat)) else c)"

definition lower :: "string \<Rightarrow> string" where
  "lower s = map lower_char s"

text \<open>
  \<^verbatim>\<open>str.strip()\<close>: the characters for which \<^verbatim>\<open>str.isspace\<close> holds (below
  code point 256) are removed at both ends.
\<close>

definition is_whitespace :: "char \<Rightarrow> bool" where
  "is_whitespace c =
     (c \<in> set [CHR 0x09, CHR 0x0A, CHR 0x0B, CHR 0x0C, CHR 0x0D, CHR 0x1C, CHR 0x1D, CHR 0x1E,
                CHR 0x1F, CHR 0x20, CHR 0x85, CHR 0xA0])"

definition strip :: "string \<Rightarrow> string" where
  "strip s = rev (dropWhile is_whitespace (rev (dropWhile is_whitespace s)))"

text \<open>\<^verbatim>\<open>s.split("\n", 1)[0]\<close>: the text before the first newline.\<close>

definition first_line :: "string \<Rightarrow> string" where
  "first_line s = takeWhile (\<lambda>c. c \<noteq> newline) s"

text \<open>
  \<^verbatim>\<open>d[k] = v\<close> on a dictionary, which keeps the insertion order: an existing
  key keeps its place, a new key goes last. \<^verbatim>\<open>d.update(other)\<close> does so for
  every entry of the other dictionary in turn.
\<close>

fun dict_set :: "'k \<Rightarrow> 'v \<Rightarrow> ('k \<times> 'v) list \<Rightarrow> ('k \<times> 'v) list" where
  "dict_set k v [] = [(k, v)]"
| "dict_set k v (p # ps) = (if fst p = k then (k, v) # ps else p # dict_set k v ps)"

definition dict_update :: "('k \<times> 'v) list \<Rightarrow> ('k \<times> 'v) list \<Rightarrow> ('k \<times> 'v) list" where
  "dict_update d other = foldl (\<lambda>acc kv. dict_set (fst kv) (snd kv) acc) d other"

definition dict_keys :: "('k \<times> 'v) list \<Rightarrow> 'k list" where
  "dict_keys d = map fst d"

subsection \<open>The regular expressions of the sources\<close>

text \<open>
  The sources use four patterns, all of them built from literals, the classes
  \<^verbatim>\<open>[a-zA-Z0-9_]\<close> and \<^verbatim>\<open>.\<close>, greedy repetition of a class,
  optional parts, capture groups and the end anchor. \<^verbatim>\<open>re.match\<close> starts at
  the first character, so the leading \<^verbatim>\<open>^\<close> of a pattern always holds and has
  no constructor here. Without flags, \<^verbatim>\<open>.\<close> is every character but the newline,
  and \<^verbatim>\<open>$\<close> holds at the end of the string and also just before a newline that
  ends the string.
\<close>

datatype char_class = Word | Dot

definition word_char :: "char \<Rightarrow> bool" where
  "word_char c =
     (c \<in> set ''abcdefghijklmnopqrstuvwxyzABCDEFGHIJKLMNOPQRSTUVWXYZ0123456789_'')"

fun in_cls :: "char_class \<Rightarrow> char \<Rightarrow> bool" where
  "in_cls Word c = word_char c"
| "in_cls Dot c = (c \<noteq> newline)"

datatype regex =
    Lit string
  | Plus char_class
  | Star char_class
  | Seq regex regex
  | Group nat regex
  | Opt regex
  | Eol

type_synonym captures = "nat \<Rightarrow> string option"

text \<open>
  The backtracking matcher: every way the pattern can match a prefix of the string,
  as the rest of the string and the groups captured, in the order in which Python's
  matcher tries them (a greedy repetition tries the longest run first, an optional
  part is tried before it is skipped).
\<close>

fun ms :: "regex \<Rightarrow> string \<Rightarrow> captures \<Rightarrow> (string \<times> captures) list" where
  "ms (Lit l) s c = (if take (length l) s = l then [(drop (length l) s, c)] else [])"
| "ms (Plus k) s c =
     map (\<lambda>n. (drop n s, c)) (rev [1 ..< Suc (length (takeWhile (in_cls k) s))])"
| "ms (Star k) s c =
     map (\<lambda>n. (drop n s, c)) (rev [0 ..< Suc (length (takeWhile (in_cls k) s))])"
| "ms (Seq a b) s c = concat (map (\<lambda>sc. ms b (fst sc) (snd sc)) (ms a s c))"
| "ms (Group i a) s c =
     map (\<lambda>sc. (fst sc, (snd sc)(i \<mapsto> take (length s - length (fst sc)) s))) (ms a s c)"
| "ms (Opt a) s c = ms a s c @ [(s, c)]"
| "ms Eol s c = (if s = [] \<or> s = [newline] then [(s, c)] else [])"

text \<open>\<^verbatim>\<open>pattern.match(s)\<close>: the groups of the first match, or None.\<close>

definition re_match :: "regex \<Rightarrow> string \<Rightarrow> captures option" where
  "re_match r s = (case ms r s (\<lambda>i. None) of [] \<Rightarrow> None | sc # rest \<Rightarrow> Some (snd sc))"

text \<open>
  \<^verbatim>\<open>_command_args_split_re = re.compile(r' +')\<close> and its \<^verbatim>\<open>split\<close>: the
  pieces of the string between the maximal runs of spaces. A run at the start or at
  the end leaves an empty piece there.
\<close>

function split_spaces :: "string \<Rightarrow> string list" where
  "split_spaces [] = [[]]"
| "split_spaces (x # xs) =
     (if x = space then [] # split_spaces (dropWhile (\<lambda>c. c = space) xs)
      else (case split_spaces xs of t # ts \<Rightarrow> (x # t) # ts | [] \<Rightarrow> [[x]]))"
  by pat_completeness auto
termination
  by (relation "measure length") (auto simp: less_Suc_eq_le length_dropWhile_le)

subsection \<open>Platform objects, events and user callables\<close>

text \<open>
  The objects of \<^verbatim>\<open>botogram.objects\<close> are given to the dispatch code already
  typed; only the attributes the three sources read are kept. A message without text
  has \<^verbatim>\<open>text\<close> None.
\<close>

datatype chat = User int | GroupChat int | Channel int

record message =
  msg_chat :: chat
  msg_text :: "string option"

record user =
  user_id :: int
  username :: string

record inline_query =
  inline_id :: string
  sender :: user
  query :: string
  offset :: string

record update =
  update_id :: int
  message :: "message option"
  edited_message :: "message option"
  channel_post :: "message option"
  edited_channel_post :: "message option"
  inline_query :: "inline_query option"

text \<open>What a user callable is given, by position or by keyword.\<close>

datatype arg =
    AChat chat
  | AMessage message
  | AArgs "string list"
  | AMatches "string option list"
  | AInline inline_query
  | AUser user
  | AStr string

text \<open>
  The three \<^verbatim>\<open>bot.logger.debug\<close> lines of payments.py, by their parameters
  (the update id and the hook name) instead of the formatted text.
\<close>

datatype log_message =
    Processing int string
  | Processed int string
  | NoHookProcessed int

text \<open>
  Everything the code does to the outside world is recorded in order: a user
  callable was called (with its positional and its keyword arguments),
  \<^verbatim>\<open>chat.send(text)\<close>, \<^verbatim>\<open>bot.api.call(method, args)\<close>,
  \<^verbatim>\<open>ipc.command(name, payload)\<close> and a debug line of the logger.
\<close>

datatype event =
    Invoked string "arg list" "(string \<times> arg) list"
  | Sent chat string
  | ApiCall string "(string \<times> pyval) list"
  | IpcCommand string pyval
  | LogDebug log_message

text \<open>
  A user callable has a name and a docstring, and its body returns a value or raises,
  changing the application's own state \<^typ>\<open>'u\<close>.
\<close>

record 'u callable =
  func_name :: string
  func_doc :: "string option"
  func_body :: "arg list \<Rightarrow> (string \<times> arg) list \<Rightarrow> 'u \<Rightarrow> (exn + pyval) \<times> 'u"

text \<open>
  The world: the trace of events, the pagination offsets kept by the IPC service
  (one integer per sender id), and the application's state.
\<close>

record 'u world =
  trace :: "event list"
  inline_offsets :: "int \<Rightarrow> int option"
  ustate :: 'u

definition emit :: "event \<Rightarrow> 'u world \<Rightarrow> 'u world" where
  "emit e w = w\<lparr>trace := trace w @ [e]\<rparr>"

definition invoke ::
  "'u callable \<Rightarrow> arg list \<Rightarrow> (string \<times> arg) list \<Rightarrow> 'u world \<Rightarrow> (exn + pyval) \<times> 'u world" where
  "invoke f pos kw w =
     (let (r, u') = func_body f pos kw (ustate w)
      in (r, (emit (Invoked (func_name f) pos kw) w)\<lparr>ustate := u'\<rparr>))"

definition send :: "chat \<Rightarrow> string \<Rightarrow> 'u world \<Rightarrow> 'u world" where
  "send c txt w = emit (Sent c txt) w"

text \<open>
  The API connection answers a call with a value or an error. The functions of
  other modules that the sources call and that are not part of them
  (\<^verbatim>\<open>utils.format_docstr\<close>, \<^verbatim>\<open>json.dumps\<close>) are parameters.
\<close>

record api_connection =
  api_reply :: "string \<Rightarrow> (string \<times> pyval) list \<Rightarrow> exn + pyval"

record externals =
  format_docstr :: "string \<Rightarrow> string"
  json_dumps :: "pyval \<Rightarrow> string"

subsection \<open>bot.py: the Bot class\<close>

datatype 'u command_func = DefaultHelp | DefaultStart | UserCommand "'u callable"

datatype 'u processor = ProcessCommands | UserProcessor "'u callable"

record 'u bot =
  api :: api_connection
  about :: string
  owner :: string
  commands :: "(string \<times> 'u callable) list"
  default_commands :: "(string \<times> 'u command_func) list"
  processors :: "'u processor list"
  before_hooks :: "'u callable list"
  itself :: user
  commands_re :: regex

text \<open>
  \<^verbatim>\<open>re.compile(r'^\/([a-zA-Z0-9_]+)(@'+self.itself.username+r')?( .*)?$')\<close>. The
  username is pasted into the pattern as it is; a Telegram username is made of
  letters, digits and underscores, which stand for themselves in a pattern.
\<close>

definition bot_commands_re :: "string \<Rightarrow> regex" where
  "bot_commands_re uname =
     Seq (Lit ''/'')
       (Seq (Group 1 (Plus Word))
         (Seq (Opt (Group 2 (Seq (Lit ''@'') (Lit uname))))
           (Seq (Opt (Group 3 (Seq (Lit '' '') (Star Dot)))) Eol)))"

text \<open>
  \<^verbatim>\<open>Bot.__init__\<close>; the second argument is the User object that the
  \<^verbatim>\<open>getMe\<close> call returns.
\<close>

definition Bot_init :: "api_connection \<Rightarrow> user \<Rightarrow> 'u bot" where
  "Bot_init api_connection me =
     \<lparr> api = api_connection, about = [], owner = [], commands = [],
       default_commands = [(''help'', DefaultHelp), (''start'', DefaultStart)],
       processors = [ProcessCommands], before_hooks = [], itself = me,
       commands_re = bot_commands_re (username me) \<rparr>"

text \<open>An argument that should be a function: None, a callable, or any other value.\<close>

datatype 'u pyobject = ObjNone | ObjCallable "'u callable" | ObjValue pyval

definition before_processing :: "'u bot \<Rightarrow> 'u pyobject \<Rightarrow> (exn + unit) \<times> 'u bot" where
  "before_processing b func =
     (case func of
        ObjCallable f \<Rightarrow> (Inr (), b\<lparr>before_hooks := before_hooks b @ [f]\<rparr>)
      | _ \<Rightarrow> (Inl (ValueError ''A before processing hook must be callable''), b))"

definition process_messages :: "'u bot \<Rightarrow> 'u pyobject \<Rightarrow> (exn + 'u callable) \<times> 'u bot" where
  "process_messages b func =
     (case func of
        ObjCallable f \<Rightarrow> (Inr f, b\<lparr>processors := processors b @ [UserProcessor f]\<rparr>)
      | _ \<Rightarrow> (Inl (ValueError ''A message processor must be callable''), b))"

text \<open>
  \<^verbatim>\<open>Bot.command\<close>. The inner function \<^verbatim>\<open>apply\<close> is \<open>command_apply\<close>;
  called without a function, \<^verbatim>\<open>command\<close> returns \<^verbatim>\<open>apply\<close> for that name,
  to be used as a decorator.
\<close>

datatype command_result = Decorator string | NoResult

definition command_apply :: "'u bot \<Rightarrow> string \<Rightarrow> 'u pyobject \<Rightarrow> (exn + 'u callable) \<times> 'u bot" where
  "command_apply b nm func =
     (case func of
        ObjCallable f \<Rightarrow> (Inr f, b\<lparr>commands := dict_set nm f (commands b)\<rparr>)
      | _ \<Rightarrow> (Inl (ValueError ''A command processor must be callable''), b))"

definition command :: "'u bot \<Rightarrow> string \<Rightarrow> 'u pyobject \<Rightarrow> (exn + command_result) \<times> 'u bot" where
  "command b nm func =
     (if nm \<in> set (dict_keys (commands b))
      then (Inl (NameError (''The command /'' @ nm @ '' already exists'')), b)
      else (case func of
              ObjNone \<Rightarrow> (Inr (Decorator nm), b)
            | _ \<Rightarrow> (case command_apply b nm func of
                       (Inl e, b') \<Rightarrow> (Inl e, b')
                     | (Inr f, b') \<Rightarrow> (Inr NoResult, b'))))"

text \<open>\<^verbatim>\<open>Bot._get_commands\<close>: the defaults, overridden by the registered commands.\<close>

definition get_commands :: "'u bot \<Rightarrow> (string \<times> 'u command_func) list" where
  "get_commands b =
     dict_update (default_commands b) (map (\<lambda>kf. (fst kf, UserCommand (snd kf))) (commands b))"

text \<open>The docstrings of the two default commands, as written in the source.\<close>

definition default_help_doc :: string where
  "default_help_doc =
     ''Show this help message'' @ [newline] @
     ''        You can also use '' @ [CHR 0x27] @ ''/help <command>'' @ [CHR 0x27] @
     '' to get help about a command.'' @ [newline] @ ''        ''"

definition default_start_doc :: string where
  "default_start_doc =
     ''Start using the bot.'' @ [newline] @
     ''        It shows a greeting message.'' @ [newline] @ ''        ''"

fun command_doc :: "'u command_func \<Rightarrow> string option" where
  "command_doc DefaultHelp = Some default_help_doc"
| "command_doc DefaultStart = Some default_start_doc"
| "command_doc (UserCommand f) = func_doc f"

text \<open>\<^verbatim>\<open>commands[name].__doc__\<close> for a name that is a key of the dictionary.\<close>

definition doc_of :: "(string \<times> 'u command_func) list \<Rightarrow> string \<Rightarrow> string option" where
  "doc_of cmds nm = (case map_of cmds nm of None \<Rightarrow> None | Some f \<Rightarrow> command_doc f)"

definition owner_footer :: "'u bot \<Rightarrow> string \<Rightarrow> string list" where
  "owner_footer b line = (if owner b \<noteq> [] then ['' '', line] else [])"

text \<open>\<^verbatim>\<open>Bot._generic_help_message\<close>.\<close>

definition generic_help_line :: "(string \<times> 'u command_func) list \<Rightarrow> string \<Rightarrow> string" where
  "generic_help_line cmds nm =
     (let docstring = (case doc_of cmds nm of
                         None \<Rightarrow> ''No description available.''
                       | Some d \<Rightarrow> if d = [] then ''No description available.''
                                   else first_line (strip d))
      in ''/'' @ nm @ '' - '' @ docstring)"

definition generic_help_message :: "'u bot \<Rightarrow> (string \<times> 'u command_func) list \<Rightarrow> string list" where
  "generic_help_message b cmds =
     (if about b \<noteq> [] then [about b, []] else []) @
     (if length (commands b) > 0
      then [''Available commands:''] @
           map (generic_help_line cmds) (sort (dict_keys cmds)) @
           [''Use /help <command> if you need help about a specific command.'']
      else [''No commands available.'']) @
     owner_footer b (''Please contact '' @ owner b @ '' if you have problems with this bot.'')"

text \<open>\<^verbatim>\<open>Bot._command_help_message\<close>.\<close>

definition command_help_message ::
  "externals \<Rightarrow> 'u bot \<Rightarrow> (string \<times> 'u command_func) list \<Rightarrow> string \<Rightarrow> string list" where
  "command_help_message ext b cmds cmd =
     (case doc_of cmds cmd of
        None \<Rightarrow> [''No help messages for the /'' @ cmd @ '' command.'']
      | Some d \<Rightarrow> if d = [] then [''No help messages for the /'' @ cmd @ '' command.'']
                  else [''/'' @ cmd @ '' - '' @ format_docstr ext d]) @
     owner_footer b (''Please contact '' @ owner b @ '' if you have problems with this bot'')"

text \<open>\<^verbatim>\<open>Bot._default_start_command\<close> and \<^verbatim>\<open>Bot._default_help_command\<close>.\<close>

definition default_start_command ::
  "'u bot \<Rightarrow> chat \<Rightarrow> message \<Rightarrow> string list \<Rightarrow> 'u world \<Rightarrow> (exn + pyval) \<times> 'u world" where
  "default_start_command b c m args w =
     (let msg = (if about b \<noteq> [] then [about b] else []) @
                [''Use /help to get a list of all the commands'']
      in (Inr PNone, send c (join [newline] msg) w))"

definition default_help_command ::
  "externals \<Rightarrow> 'u bot \<Rightarrow> chat \<Rightarrow> message \<Rightarrow> string list \<Rightarrow> 'u world \<Rightarrow> (exn + pyval) \<times> 'u world" where
  "default_help_command ext b c m args w =
     (let cmds = get_commands b;
          msg = (if length args > 1
                 then [''Error: the /help command allows up to one argument.'']
                 else if length args = 1
                 then (if hd args \<in> set (dict_keys cmds)
                       then command_help_message ext b cmds (hd args)
                       else [''Error: Unknow command: /'' @ hd args,
                             ''Use /help for a list of commands.''])
                 else generic_help_message b cmds)
      in (Inr PNone, send c (join [newline] msg) w))"

text \<open>\<^verbatim>\<open>commands[command](chat, message, args)\<close>.\<close>

definition run_command ::
  "externals \<Rightarrow> 'u bot \<Rightarrow> 'u command_func \<Rightarrow> chat \<Rightarrow> message \<Rightarrow> string list \<Rightarrow> 'u world
     \<Rightarrow> (exn + pyval) \<times> 'u world" where
  "run_command ext b f c m args w =
     (case f of
        DefaultHelp \<Rightarrow> default_help_command ext b c m args w
      | DefaultStart \<Rightarrow> default_start_command b c m args w
      | UserCommand g \<Rightarrow> invoke g [AChat c, AMessage m, AArgs args] [] w)"

fun is_User :: "chat \<Rightarrow> bool" where
  "is_User (User i) = True"
| "is_User c = False"

text \<open>
  \<^verbatim>\<open>Bot._process_commands\<close>. Group 1 of the pattern is not optional, so a match
  always has it; \<^verbatim>\<open>text.split(" ")\<close> is never empty, so \<^verbatim>\<open>splitted[0]\<close>
  exists.
\<close>

definition process_commands ::
  "externals \<Rightarrow> 'u bot \<Rightarrow> chat \<Rightarrow> message \<Rightarrow> 'u world \<Rightarrow> (exn + pyval) \<times> 'u world" where
  "process_commands ext b c m w =
     (case msg_text m of
        None \<Rightarrow> (Inr PNone, w)
      | Some txt \<Rightarrow>
         (case re_match (commands_re b) txt of
            None \<Rightarrow> (Inr PNone, w)
          | Some groups \<Rightarrow>
             (let cmd = (case groups 1 of Some g \<Rightarrow> g | None \<Rightarrow> []);
                  splitted = split_on space txt;
                  args = tl splitted;
                  mentioned = (hd splitted = ''/'' @ cmd @ ''@'' @ username (itself b));
                  cmds = get_commands b
              in (case map_of cmds cmd of
                    Some f \<Rightarrow>
                      (case run_command ext b f c m args w of
                         (Inl e, w') \<Rightarrow> (Inl e, w')
                       | (Inr r, w') \<Rightarrow> (Inr (PBool True), w'))
                  | None \<Rightarrow>
                      if is_User c \<or> mentioned
                      then (Inr PNone,
                            send c (join [newline] [''Unknow command /'' @ cmd @ ''.'',
                                                    ''Use /help for a list of commands.'']) w)
                      else (Inr PNone, w)))))"





subsection \<open>hooks.py: the hook classes\<close>

text \<open>
  Modelled from the spec: \<^verbatim>\<open>Bot._call\<close> of the runtime, which hooks.py calls
  and which is not among the sources. It invokes the handler function with the
  kind-specific keyword arguments and returns what the function returns.
\<close>

definition bot_call ::
  "'u bot \<Rightarrow> 'u callable \<Rightarrow> int \<Rightarrow> (string \<times> arg) list \<Rightarrow> 'u world \<Rightarrow> (exn + pyval) \<times> 'u world" where
  "bot_call b f cid kw w = invoke f [] kw w"

text \<open>\<^verbatim>\<open>bot.api.call(method, args)\<close>.\<close>

definition api_call ::
  "'u bot \<Rightarrow> string \<Rightarrow> (string \<times> pyval) list \<Rightarrow> 'u world \<Rightarrow> (exn + pyval) \<times> 'u world" where
  "api_call b method args w = (api_reply (api b) method args, emit (ApiCall method args) w)"

text \<open>
  Modelled from the spec: the IPC service behind \<^verbatim>\<open>self._ipc.command\<close>, which
  lives in the worker runtime and is not among the sources. It keeps one integer
  offset per sender id; \<^verbatim>\<open>inline.get\<close> reads it (0 if absent),
  \<^verbatim>\<open>inline.update\<close> writes it and \<^verbatim>\<open>inline.purge\<close> resets it to zero. The
  pair that \<^verbatim>\<open>inline.update\<close> is given is a two-element list.
\<close>

definition ipc_command :: "string \<Rightarrow> pyval \<Rightarrow> 'u world \<Rightarrow> pyval \<times> 'u world" where
  "ipc_command cmd payload w =
     (let w' = emit (IpcCommand cmd payload) w
      in if cmd = ''inline.get''
         then (case payload of
                 PInt sid \<Rightarrow> (PInt (case inline_offsets w sid of None \<Rightarrow> 0 | Some v \<Rightarrow> v), w')
               | _ \<Rightarrow> (PNone, w'))
         else if cmd = ''inline.update''
         then (case payload of
                 PList [PInt sid, PInt v] \<Rightarrow>
                   (PNone, w'\<lparr>inline_offsets := (inline_offsets w)(sid \<mapsto> v)\<rparr>)
               | _ \<Rightarrow> (PNone, w'))
         else if cmd = ''inline.purge''
         then (case payload of
                 PInt sid \<Rightarrow> (PNone, w'\<lparr>inline_offsets := (inline_offsets w)(sid \<mapsto> 0)\<rparr>)
               | _ \<Rightarrow> (PNone, w'))
         else (PNone, w'))"

record component =
  component_name :: string
  component_ident :: int

record text_attrs =
  match_string :: string
  ignore_case :: bool
  multiple :: bool

record matches_attrs =
  finditer :: "string \<Rightarrow> string option list list"
  matches_multiple :: bool

record command_attrs =
  cmd_regex :: regex
  cmd_name :: string
  cmd_hidden :: bool
  cmd_order :: int

record inline_attrs =
  cache :: int
  inline_private :: bool
  paginate :: int
  timer :: int

datatype hook_class =
    Hook
  | BeforeProcessingHook
  | ProcessMessageHook
  | NoCommandsHook
  | MessageEqualsHook text_attrs
  | MessageContainsHook text_attrs
  | MessageMatchesHook matches_attrs
  | CommandHook command_attrs
  | InlineHook inline_attrs
  | MessageEditedHook
  | ChannelPostHook
  | EditedChannelPostHook

record 'u hook =
  func :: "'u callable"
  name :: string
  component_id :: int
  hook_class :: hook_class

text \<open>
  \<^verbatim>\<open>Hook.__init__\<close>, given the attributes that the class's
  \<^verbatim>\<open>_after_init\<close> has computed from the arguments.
\<close>

definition Hook_init :: "hook_class \<Rightarrow> 'u callable \<Rightarrow> component \<Rightarrow> 'u hook" where
  "Hook_init k f cpt =
     (let prefix = (if component_name cpt \<noteq> [] then component_name cpt @ ''::'' else [])
      in \<lparr> func = f, name = prefix @ func_name f, component_id = component_ident cpt,
           hook_class = k \<rparr>)"

text \<open>\<^verbatim>\<open>MessageEqualsHook._after_init\<close>, inherited by MessageContainsHook.\<close>

definition MessageEqualsHook_after_init :: "string \<Rightarrow> bool \<Rightarrow> bool \<Rightarrow> text_attrs" where
  "MessageEqualsHook_after_init str ic mlt =
     \<lparr> match_string = (if ic then lower str else str), ignore_case = ic, multiple = mlt \<rparr>"

text \<open>
  \<^verbatim>\<open>CommandHook._after_init\<close>. The name check is
  \<^verbatim>\<open>re.match(r'^[a-zA-Z0-9_]+$', args["name"])\<close>; the pattern of the hook is
  \<^verbatim>\<open>r'^\/' + args["name"] + r'(@[a-zA-Z0-9_]+)?( .*)?$'\<close>, in which a name that
  has passed the check stands for itself.
\<close>

definition command_name_re :: regex where
  "command_name_re = Seq (Plus Word) Eol"

definition command_regex :: "string \<Rightarrow> regex" where
  "command_regex nm =
     Seq (Lit ''/'')
       (Seq (Lit nm)
         (Seq (Opt (Group 1 (Seq (Lit ''@'') (Plus Word))))
           (Seq (Opt (Group 2 (Seq (Lit '' '') (Star Dot)))) Eol)))"

record command_args =
  arg_name :: string
  arg_hidden :: "bool option"
  arg_order :: "int option"

definition CommandHook_after_init :: "command_args \<Rightarrow> exn + command_attrs" where
  "CommandHook_after_init args =
     (case re_match command_name_re (arg_name args) of
        None \<Rightarrow> Inl (ValueError (''Invalid command name: '' @ arg_name args))
      | Some groups \<Rightarrow>
          Inr \<lparr> cmd_regex = command_regex (arg_name args),
                cmd_name = arg_name args,
                cmd_hidden = (case arg_hidden args of None \<Rightarrow> False | Some h \<Rightarrow> h),
                cmd_order = (case arg_order args of None \<Rightarrow> 0 | Some n \<Rightarrow> n) \<rparr>)"

definition CommandHook_new :: "'u callable \<Rightarrow> component \<Rightarrow> command_args \<Rightarrow> exn + 'u hook" where
  "CommandHook_new f cpt args =
     (case CommandHook_after_init args of
        Inl e \<Rightarrow> Inl e
      | Inr attrs \<Rightarrow> Inr (Hook_init (CommandHook attrs) f cpt))"

definition InlineHook_after_init :: "int \<Rightarrow> bool \<Rightarrow> int \<Rightarrow> int \<Rightarrow> inline_attrs" where
  "InlineHook_after_init c p pg t = \<lparr> cache = c, inline_private = p, paginate = pg, timer = t \<rparr>"

text \<open>\<^verbatim>\<open>Hook._call\<close>, also used with the message of another payload.\<close>

definition call_with_message ::
  "'u bot \<Rightarrow> 'u hook \<Rightarrow> message option \<Rightarrow> 'u world \<Rightarrow> (exn + pyval) \<times> 'u world" where
  "call_with_message b h mo w =
     (case mo of
        None \<Rightarrow> (Inl (AttributeError ''chat''), w)
      | Some m \<Rightarrow>
          bot_call b (func h) (component_id h)
            [(''chat'', AChat (msg_chat m)), (''message'', AMessage m)] w)"

text \<open>\<^verbatim>\<open>MessageEqualsHook._prepare\<close> and \<^verbatim>\<open>MessageEqualsHook._call\<close>.\<close>

definition prepare :: "text_attrs \<Rightarrow> string \<Rightarrow> string" where
  "prepare attrs txt = (if ignore_case attrs then lower txt else txt)"

definition MessageEqualsHook_call ::
  "'u bot \<Rightarrow> 'u hook \<Rightarrow> text_attrs \<Rightarrow> update \<Rightarrow> 'u world \<Rightarrow> (exn + pyval) \<times> 'u world" where
  "MessageEqualsHook_call b h attrs u w =
     (case message u of
        None \<Rightarrow> (Inl (AttributeError ''text''), w)
      | Some m \<Rightarrow>
         (case msg_text m of
            None \<Rightarrow> if ignore_case attrs then (Inl (AttributeError ''lower''), w)
                    else (Inr PNone, w)
          | Some txt \<Rightarrow>
              if prepare attrs txt \<noteq> match_string attrs then (Inr PNone, w)
              else bot_call b (func h) (component_id h)
                     [(''chat'', AChat (msg_chat m)), (''message'', AMessage m)] w))"

text \<open>
  \<^verbatim>\<open>MessageContainsHook._call\<close>: the loop over \<^verbatim>\<open>text.split(" ")\<close>, with the
  list \<^verbatim>\<open>res\<close> of the results collected so far.
\<close>

fun contains_loop ::
  "'u bot \<Rightarrow> 'u hook \<Rightarrow> text_attrs \<Rightarrow> message \<Rightarrow> string list \<Rightarrow> pyval list \<Rightarrow> 'u world
     \<Rightarrow> (exn + pyval list) \<times> 'u world" where
  "contains_loop b h attrs m [] res w = (Inr res, w)"
| "contains_loop b h attrs m (one # rest) res w =
     (if one \<noteq> match_string attrs then contains_loop b h attrs m rest res w
      else (case bot_call b (func h) (component_id h)
                   [(''chat'', AChat (msg_chat m)), (''message'', AMessage m)] w of
              (Inl e, w') \<Rightarrow> (Inl e, w')
            | (Inr result, w') \<Rightarrow>
                if \<not> multiple attrs then (Inr (res @ [result]), w')
                else contains_loop b h attrs m rest (res @ [result]) w'))"

definition MessageContainsHook_call ::
  "'u bot \<Rightarrow> 'u hook \<Rightarrow> text_attrs \<Rightarrow> update \<Rightarrow> 'u world \<Rightarrow> (exn + pyval) \<times> 'u world" where
  "MessageContainsHook_call b h attrs u w =
     (case message u of
        None \<Rightarrow> (Inl (AttributeError ''text''), w)
      | Some m \<Rightarrow>
         (case msg_text m of
            None \<Rightarrow> (Inl (AttributeError (if ignore_case attrs then ''lower'' else ''split'')), w)
          | Some txt \<Rightarrow>
             (case contains_loop b h attrs m (split_on space (prepare attrs txt)) [] w of
                (Inl e, w') \<Rightarrow> (Inl e, w')
              | (Inr res, w') \<Rightarrow> (Inr (PBool (length res > 0)), w'))))"

text \<open>
  \<^verbatim>\<open>MessageMatchesHook._call\<close>; the compiled pattern of the user is given by
  the groups of its successive matches in a text.
\<close>

fun matches_loop ::
  "'u bot \<Rightarrow> 'u hook \<Rightarrow> matches_attrs \<Rightarrow> message \<Rightarrow> string option list list \<Rightarrow> bool \<Rightarrow> 'u world
     \<Rightarrow> (exn + bool) \<times> 'u world" where
  "matches_loop b h attrs m [] found w = (Inr found, w)"
| "matches_loop b h attrs m (result # rest) found w =
     (case bot_call b (func h) (component_id h)
             [(''chat'', AChat (msg_chat m)), (''message'', AMessage m),
              (''matches'', AMatches result)] w of
        (Inl e, w') \<Rightarrow> (Inl e, w')
      | (Inr r, w') \<Rightarrow>
          if \<not> matches_multiple attrs then (Inr True, w')
          else matches_loop b h attrs m rest True w')"

definition MessageMatchesHook_call ::
  "'u bot \<Rightarrow> 'u hook \<Rightarrow> matches_attrs \<Rightarrow> update \<Rightarrow> 'u world \<Rightarrow> (exn + pyval) \<times> 'u world" where
  "MessageMatchesHook_call b h attrs u w =
     (case message u of
        None \<Rightarrow> (Inl (AttributeError ''text''), w)
      | Some m \<Rightarrow>
         (case msg_text m of
            None \<Rightarrow> (Inl (TypeError ''expected string or bytes-like object''), w)
          | Some txt \<Rightarrow>
             (case matches_loop b h attrs m (finditer attrs txt) False w of
                (Inl e, w') \<Rightarrow> (Inl e, w')
              | (Inr found, w') \<Rightarrow> (Inr (PBool found), w'))))"

text \<open>\<^verbatim>\<open>CommandHook._call\<close>.\<close>

definition CommandHook_call ::
  "'u bot \<Rightarrow> 'u hook \<Rightarrow> command_attrs \<Rightarrow> update \<Rightarrow> 'u world \<Rightarrow> (exn + pyval) \<times> 'u world" where
  "CommandHook_call b h attrs u w =
     (case message u of
        None \<Rightarrow> (Inl (AttributeError ''text''), w)
      | Some m \<Rightarrow>
         (case msg_text m of
            None \<Rightarrow> (Inl (AttributeError ''replace''), w)
          | Some raw \<Rightarrow>
             (let txt = replace_char tab space (replace_char newline space raw)
              in (case re_match (cmd_regex attrs) txt of
                    None \<Rightarrow> (Inr PNone, w)
                  | Some groups \<Rightarrow>
                      if (case groups 1 of
                            None \<Rightarrow> False
                          | Some g \<Rightarrow> g \<noteq> [] \<and> g \<noteq> ''@'' @ username (itself b))
                      then (Inr PNone, w)
                      else (let args = tl (split_spaces txt)
                            in (case bot_call b (func h) (component_id h)
                                       [(''chat'', AChat (msg_chat m)), (''message'', AMessage m),
                                        (''args'', AArgs args)] w of
                                  (Inl e, w') \<Rightarrow> (Inl e, w')
                                | (Inr r, w') \<Rightarrow> (Inr (PBool True), w')))))))"

text \<open>
  \<^verbatim>\<open>InlineHook._ipc_get\<close>, \<^verbatim>\<open>_ipc_update\<close> and \<^verbatim>\<open>_ipc_purge\<close>.
\<close>

definition InlineHook_ipc_get :: "user \<Rightarrow> 'u world \<Rightarrow> pyval \<times> 'u world" where
  "InlineHook_ipc_get sndr w = ipc_command ''inline.get'' (PInt (user_id sndr)) w"

definition InlineHook_ipc_update :: "user \<Rightarrow> int \<Rightarrow> 'u world \<Rightarrow> 'u world" where
  "InlineHook_ipc_update sndr v w =
     snd (ipc_command ''inline.update'' (PList [PInt (user_id sndr), PInt v]) w)"

definition InlineHook_ipc_purge :: "user \<Rightarrow> 'u world \<Rightarrow> 'u world" where
  "InlineHook_ipc_purge sndr w = snd (ipc_command ''inline.purge'' (PInt (user_id sndr)) w)"

text \<open>
  \<^verbatim>\<open>itertools.islice(generator, offset, None)\<close>: a negative start is a
  ValueError, then the first argument must be iterable; the slice skips the first
  \<open>offset\<close> elements when it is read.
\<close>

primrec gen_of_list :: "'a list \<Rightarrow> 'a generator" where
  "gen_of_list [] = Exhausted"
| "gen_of_list (x # xs) = Yield x (gen_of_list xs)"

primrec gen_drop :: "nat \<Rightarrow> 'a generator \<Rightarrow> 'a generator" where
  "gen_drop 0 g = g"
| "gen_drop (Suc n) g = (case g of Exhausted \<Rightarrow> Exhausted | Yield x g' \<Rightarrow> gen_drop n g')"

fun py_iter :: "pyval \<Rightarrow> exn + pyval generator" where
  "py_iter (PIter g) = Inr g"
| "py_iter (PList xs) = Inr (gen_of_list xs)"
| "py_iter (PDict d) = Inr (gen_of_list (map (\<lambda>kv. PStr (fst kv)) d))"
| "py_iter (PStr s) = Inr (gen_of_list (map (\<lambda>c. PStr [c]) s))"
| "py_iter v = Inl (TypeError ''object is not iterable'')"

definition islice :: "pyval \<Rightarrow> int \<Rightarrow> exn + pyval generator" where
  "islice iterable start =
     (if start < 0 then Inl (ValueError ''Indices for islice() must be None or an integer'')
      else (case py_iter iterable of
              Inl e \<Rightarrow> Inl e
            | Inr g \<Rightarrow> Inr (gen_drop (nat start) g)))"

text \<open>\<^verbatim>\<open>element['id'] = i\<close>: only a dictionary takes a string key.\<close>

fun set_item :: "pyval \<Rightarrow> string \<Rightarrow> pyval \<Rightarrow> exn + pyval" where
  "set_item (PDict d) k v = Inr (PDict (dict_set k v d))"
| "set_item x k v = Inl (TypeError ''object does not support item assignment'')"

text \<open>
  The loop of \<^verbatim>\<open>InlineHook._call\<close> over \<^verbatim>\<open>range(offset, offset + paginate)\<close>,
  reading the slice until it is exhausted.
\<close>

fun inline_loop :: "int list \<Rightarrow> pyval generator \<Rightarrow> pyval list \<Rightarrow> exn + pyval list" where
  "inline_loop [] sliced results = Inr results"
| "inline_loop (i # rest) sliced results =
     (case sliced of
        Exhausted \<Rightarrow> Inr results
      | Yield element sliced' \<Rightarrow>
         (case set_item element ''id'' (PInt i) of
            Inl e \<Rightarrow> Inl e
          | Inr element' \<Rightarrow> inline_loop rest sliced' (results @ [element'])))"

definition py_range :: "int \<Rightarrow> int \<Rightarrow> int list" where
  "py_range a b = map (\<lambda>k. a + int k) [0 ..< nat (b - a)]"

text \<open>
  \<^verbatim>\<open>InlineHook._call\<close>. Fetching the IPC handle of the process on the first call
  has no part in the result and is left out.
\<close>

definition InlineHook_call ::
  "externals \<Rightarrow> 'u bot \<Rightarrow> 'u hook \<Rightarrow> inline_attrs \<Rightarrow> update \<Rightarrow> 'u world \<Rightarrow> (exn + pyval) \<times> 'u world" where
  "InlineHook_call ext b h attrs u w =
     (case inline_query u of
        None \<Rightarrow> (Inl (AttributeError ''sender''), w)
      | Some inline \<Rightarrow>
         (let sndr = sender inline;
              w1 = (if offset inline = [] then InlineHook_ipc_purge sndr w else w)
          in (case bot_call b (func h) (component_id h)
                     [(''inline'', AInline inline), (''sender'', AUser sndr),
                      (''query'', AStr (query inline))] w1 of
                (Inl e, w2) \<Rightarrow> (Inl e, w2)
              | (Inr generator, w2) \<Rightarrow>
                 (case InlineHook_ipc_get sndr w2 of
                    (PInt offs, w3) \<Rightarrow>
                      (let w4 = InlineHook_ipc_update sndr (offs + paginate attrs) w3
                       in (case islice generator offs of
                             Inl e \<Rightarrow> (Inl e, w4)
                           | Inr sliced \<Rightarrow>
                              (case inline_loop (py_range offs (offs + paginate attrs)) sliced [] of
                                 Inl e \<Rightarrow> (Inl e, w4)
                               | Inr results \<Rightarrow>
                                   api_call b ''answerInlineQuery''
                                     [(''inline_query_id'', PStr (inline_id inline)),
                                      (''cache_time'', PInt (cache attrs)),
                                      (''is_personal'', PBool (inline_private attrs)),
                                      (''results'', PStr (json_dumps ext (PList results))),
                                      (''next_offset'', PInt (offs + paginate attrs))] w4)))
                  | (v, w3) \<Rightarrow> (Inl (TypeError ''unsupported operand type(s) for +''), w3)))))"

text \<open>
  \<^verbatim>\<open>Hook.call\<close>, with the class's own \<^verbatim>\<open>_call\<close>. The execution context that
  wraps the call only attributes later platform calls to the hook and has no part
  in the result.
\<close>

fun only_texts :: "hook_class \<Rightarrow> bool" where
  "only_texts (MessageEqualsHook a) = True"
| "only_texts (MessageContainsHook a) = True"
| "only_texts (MessageMatchesHook a) = True"
| "only_texts (CommandHook a) = True"
| "only_texts k = False"

definition call_dispatch ::
  "externals \<Rightarrow> 'u bot \<Rightarrow> 'u hook \<Rightarrow> update \<Rightarrow> 'u world \<Rightarrow> (exn + pyval) \<times> 'u world" where
  "call_dispatch ext b h u w =
     (case hook_class h of
        MessageEqualsHook a \<Rightarrow> MessageEqualsHook_call b h a u w
      | MessageContainsHook a \<Rightarrow> MessageContainsHook_call b h a u w
      | MessageMatchesHook a \<Rightarrow> MessageMatchesHook_call b h a u w
      | CommandHook a \<Rightarrow> CommandHook_call b h a u w
      | InlineHook a \<Rightarrow> InlineHook_call ext b h a u w
      | MessageEditedHook \<Rightarrow> call_with_message b h (edited_message u) w
      | ChannelPostHook \<Rightarrow> call_with_message b h (channel_post u) w
      | EditedChannelPostHook \<Rightarrow> call_with_message b h (edited_channel_post u) w
      | _ \<Rightarrow> call_with_message b h (message u) w)"

definition call ::
  "externals \<Rightarrow> 'u bot \<Rightarrow> 'u hook \<Rightarrow> update \<Rightarrow> 'u world \<Rightarrow> (exn + pyval) \<times> 'u world" where
  "call ext b h u w =
     (if only_texts (hook_class h)
      then (case message u of
              None \<Rightarrow> (Inl (AttributeError ''text''), w)
            | Some m \<Rightarrow> if msg_text m = None then (Inr PNone, w)
                        else call_dispatch ext b h u w)
      else call_dispatch ext b h u w)"

subsection \<open>payments.py: the shipping and pre-checkout chains\<close>

text \<open>
  The loop of \<^verbatim>\<open>process_shipping_query\<close> and of
  \<^verbatim>\<open>process_pre_checkout_query\<close>, which differ in the key of the chain only. As
  for \<open>process_loop\<close>, the list of the hooks called is returned with the world.
\<close>

fun chain_loop ::
  "externals \<Rightarrow> 'u bot \<Rightarrow> 'u hook list \<Rightarrow> update \<Rightarrow> 'u world
     \<Rightarrow> ('u hook \<times> (exn + pyval)) list \<times> (exn + pyval) \<times> 'u world" where
  "chain_loop ext b [] u w = ([], Inr PNone, emit (LogDebug (NoHookProcessed (update_id u))) w)"
| "chain_loop ext b (h # hs) u w =
     (case call ext b h u (emit (LogDebug (Processing (update_id u) (name h))) w) of
        (Inl e, w') \<Rightarrow> ([(h, Inl e)], Inl e, w')
      | (Inr r, w') \<Rightarrow>
          if r = PBool True
          then ([(h, Inr r)], Inr PNone, emit (LogDebug (Processed (update_id u) (name h))) w')
          else (case chain_loop ext b hs u w' of
                  (calls, res, w'') \<Rightarrow> ((h, Inr r) # calls, res, w'')))"

definition process_chain ::
  "string \<Rightarrow> externals \<Rightarrow> 'u bot \<Rightarrow> (string \<times> 'u hook list) list \<Rightarrow> update \<Rightarrow> 'u world
     \<Rightarrow> ('u hook \<times> (exn + pyval)) list \<times> (exn + pyval) \<times> 'u world" where
  "process_chain key ext b chns u w =
     (case map_of chns key of
        None \<Rightarrow> ([], Inl (KeyError key), w)
      | Some hooks \<Rightarrow> chain_loop ext b hooks u w)"


definition process_pre_checkout_query ::
  "externals \<Rightarrow> 'u bot \<Rightarrow> (string \<times> 'u hook list) list \<Rightarrow> update \<Rightarrow> 'u world
     \<Rightarrow> ('u hook \<times> (exn + pyval)) list \<times> (exn + pyval) \<times> 'u world" where
  "process_pre_checkout_query ext b chns u w =
     process_chain ''pre_checkout_query'' ext b chns u w"

subsection \<open>payments.py: the Invoice object\<close>

text \<open>
  \<^verbatim>\<open>Invoice.__init__\<close> creates an empty item list and unset header, photo and
  request fields. Every item is the dictionary \<^verbatim>\<open>{"label": label, "amount": price}\<close>,
  kept here as a pair; amounts are Python integers.
\<close>

record invoice =
  items :: "(string \<times> int) list"
  provider_token :: "string option"
  title :: "string option"
  description :: "string option"
  payload :: "string option"
  start_parameter :: "string option"
  currency :: "string option"
  photo_url :: "string option"
  photo_size :: "int option"
  photo_width :: "int option"
  photo_height :: "int option"
  need_name :: bool
  need_phone_number :: bool
  need_email :: bool
  need_shipping_address :: bool
  is_flexible :: bool

definition Invoice_init :: invoice where
  "Invoice_init =
     \<lparr> items = [], provider_token = None, title = None, description = None,
       payload = None, start_parameter = None, currency = None,
       photo_url = None, photo_size = None, photo_width = None, photo_height = None,
       need_name = False, need_phone_number = False, need_email = False,
       need_shipping_address = False, is_flexible = False \<rparr>"

definition provider :: "invoice \<Rightarrow> string \<Rightarrow> invoice" where
  "provider iv tok = iv\<lparr>provider_token := Some tok\<rparr>"

definition header :: "invoice \<Rightarrow> string \<Rightarrow> string \<Rightarrow> string \<Rightarrow> string \<Rightarrow> string \<Rightarrow> invoice" where
  "header iv t d p sp c =
     iv\<lparr>title := Some t, description := Some d, payload := Some p,
         start_parameter := Some sp, currency := Some c\<rparr>"

definition photo :: "invoice \<Rightarrow> string \<Rightarrow> int option \<Rightarrow> int option \<Rightarrow> int option \<Rightarrow> invoice" where
  "photo iv url sz w h =
     iv\<lparr>photo_url := Some url, photo_size := sz, photo_width := w, photo_height := h\<rparr>"

definition request_for :: "invoice \<Rightarrow> bool \<Rightarrow> bool \<Rightarrow> bool \<Rightarrow> invoice" where
  "request_for iv n ph e =
     iv\<lparr>need_name := n, need_phone_number := ph, need_email := e\<rparr>"

definition shipping :: "invoice \<Rightarrow> bool \<Rightarrow> bool \<Rightarrow> invoice" where
  "shipping iv request_address flexible =
     iv\<lparr>need_shipping_address := request_address, is_flexible := flexible\<rparr>"

definition add_product :: "invoice \<Rightarrow> string \<Rightarrow> int \<Rightarrow> invoice" where
  "add_product iv label price = iv\<lparr>items := items iv @ [(label, price)]\<rparr>"

text \<open>\<^verbatim>\<open>sum(item['amount'] for item in self._items)\<close>: Python's sum starts at 0.\<close>

definition total_amount :: "invoice \<Rightarrow> int" where
  "total_amount iv = foldl (\<lambda>acc item. acc + snd item) 0 (items iv)"

text \<open>A client of the class is a sequence of method calls on a fresh invoice.\<close>

datatype invoice_call =
    Provider string
  | Header string string string string string
  | Photo string "int option" "int option" "int option"
  | RequestFor bool bool bool
  | Shipping bool bool
  | AddProduct string int

fun apply_call :: "invoice \<Rightarrow> invoice_call \<Rightarrow> invoice" where
  "apply_call iv (Provider tok) = provider iv tok"
| "apply_call iv (Header t d p sp c) = header iv t d p sp c"
| "apply_call iv (Photo url sz w h) = photo iv url sz w h"
| "apply_call iv (RequestFor n ph e) = request_for iv n ph e"
| "apply_call iv (Shipping a f) = shipping iv a f"
| "apply_call iv (AddProduct label price) = add_product iv label price"

definition run_calls :: "invoice_call list \<Rightarrow> invoice" where
  "run_calls cs = foldl apply_call Invoice_init cs"

fun product_amounts :: "invoice_call list \<Rightarrow> int list" where
  "product_amounts [] = []"
| "product_amounts (AddProduct label price # cs) = price # product_amounts cs"
| "product_amounts (c # cs) = product_amounts cs"

fun is_add_product :: "invoice_call \<Rightarrow> bool" where
  "is_add_product (AddProduct label price) = True"
| "is_add_product c = False"

subsection \<open>Notions used to state the properties\<close>

text \<open>
  What \<^verbatim>\<open>Bot.__init__\<close> establishes and no registration changes: the command
  pattern is the one of the bot's username, and the default commands are help and
  start. The username is a Telegram username, made of letters, digits and
  underscores: only then is the pattern, into which it is pasted, the one of
  \<open>bot_commands_re\<close>.
\<close>

definition bot_invariant :: "'u bot \<Rightarrow> bool" where
  "bot_invariant b =
     (commands_re b = bot_commands_re (username (itself b)) \<and>
      default_commands b = [(''help'', DefaultHelp), (''start'', DefaultStart)] \<and>
      list_all word_char (username (itself b)))"

text \<open>The first \<open>n\<close> elements of a generator (fewer if it ends before).\<close>

primrec gen_take :: "nat \<Rightarrow> 'a generator \<Rightarrow> 'a list" where
  "gen_take 0 g = []"
| "gen_take (Suc n) g = (case g of Exhausted \<Rightarrow> [] | Yield x g' \<Rightarrow> x # gen_take n g')"

text \<open>An unbounded generator of result items, each a dictionary with a title.\<close>

primcorec items_from :: "int \<Rightarrow> pyval generator" where
  "items_from k = Yield (PDict [(''title'', PInt k)]) (items_from (k + 1))"

fun is_dict :: "pyval \<Rightarrow> bool" where
  "is_dict (PDict d) = True"
| "is_dict v = False"

text \<open>A result item with its positional id.\<close>

fun with_id :: "int \<Rightarrow> pyval \<Rightarrow> pyval" where
  "with_id i (PDict d) = PDict (dict_set ''id'' (PInt i) d)"
| "with_id i v = v"

fun item_id :: "pyval \<Rightarrow> pyval option" where
  "item_id (PDict d) = map_of d ''id''"
| "item_id v = None"

text \<open>
  The page of results for a stored offset \<open>offs\<close> and a page size \<open>p\<close>: the elements
  of the sequence at the absolute positions \<open>offs\<close>, \<open>offs + 1\<close>, ... (at most \<open>p\<close> of
  them), each with its position as id.
\<close>

definition page :: "int \<Rightarrow> int \<Rightarrow> pyval generator \<Rightarrow> pyval list" where
  "page offs p g =
     map (\<lambda>ie. with_id (fst ie) (snd ie))
       (zip (py_range offs (offs + p)) (gen_take (nat p) (gen_drop (nat offs) g)))"

text \<open>
  The tokens of a text split on whitespace, as the specification words it for the
  MessageContains hook (\<^verbatim>\<open>str.split()\<close> without a separator): the maximal runs of
  characters that are not whitespace.
\<close>

function split_whitespace :: "string \<Rightarrow> string list" where
  "split_whitespace s =
     (case dropWhile is_whitespace s of
        [] \<Rightarrow> []
      | x # xs \<Rightarrow> takeWhile (\<lambda>c. \<not> is_whitespace c) (x # xs)
                  # split_whitespace (dropWhile (\<lambda>c. \<not> is_whitespace c) xs))"
  by pat_completeness auto
termination
proof (relation "measure length")
  show "wf (measure length)" by simp
next
  fix s :: string and x xs
  assume a: "dropWhile is_whitespace s = x # xs"
  have "length (dropWhile (\<lambda>c. \<not> is_whitespace c) xs) \<le> length xs"
    by (rule length_dropWhile_le)
  moreover have "length (x # xs) \<le> length s"
    using length_dropWhile_le [of is_whitespace s] a by simp
  ultimately show "(dropWhile (\<lambda>c. \<not> is_whitespace c) xs, s) \<in> measure length"
    by simp
qed

text \<open>The number of times a user callable was called, read off a trace.\<close>

fun is_invocation :: "event \<Rightarrow> bool" where
  "is_invocation (Invoked nm pos kw) = True"
| "is_invocation e = False"

definition invocations :: "'u world \<Rightarrow> event list" where
  "invocations w = filter is_invocation (trace w)"

text \<open>
  The text on which \<^verbatim>\<open>CommandHook._call\<close> matches: newlines and tabs replaced
  by spaces.
\<close>

definition normalize :: "string \<Rightarrow> string" where
  "normalize raw = replace_char tab space (replace_char newline space raw)"

text \<open>The event of a message hook calling its function for a message.\<close>

definition message_event :: "'u hook \<Rightarrow> message \<Rightarrow> event" where
  "message_event h m =
     Invoked (func_name (func h)) [] [(''chat'', AChat (msg_chat m)), (''message'', AMessage m)]"

text \<open>
  For the inline hook: the keyword arguments of the handler, the offset that a query
  starts from (zero after the purge of an empty-offset query, the stored offset
  otherwise), and the arguments of the answer for a result sequence \<open>g\<close>.
\<close>

definition inline_kwargs :: "inline_query \<Rightarrow> (string \<times> arg) list" where
  "inline_kwargs q =
     [(''inline'', AInline q), (''sender'', AUser (sender q)), (''query'', AStr (query q))]"

definition start_offset :: "inline_query \<Rightarrow> 'u world \<Rightarrow> int" where
  "start_offset q w =
     (if offset q = [] then 0
      else (case inline_offsets w (user_id (sender q)) of None \<Rightarrow> 0 | Some v \<Rightarrow> v))"

definition answer_args ::
  "externals \<Rightarrow> inline_attrs \<Rightarrow> inline_query \<Rightarrow> int \<Rightarrow> pyval generator \<Rightarrow> (string \<times> pyval) list" where
  "answer_args ext attrs q offs g =
     [(''inline_query_id'', PStr (inline_id q)),
      (''cache_time'', PInt (cache attrs)),
      (''is_personal'', PBool (inline_private attrs)),
      (''results'', PStr (json_dumps ext (PList (page offs (paginate attrs) g)))),
      (''next_offset'', PInt (offs + paginate attrs))]"

text \<open>
  What every platform call of the inline hook looks like: the method is
  answerInlineQuery, the five fields come in this order, the results are the
  serialized list of items whose ids count up from an offset, and the next offset is
  that offset plus the page size, as an integer.
\<close>

definition response_ok :: "externals \<Rightarrow> inline_attrs \<Rightarrow> event \<Rightarrow> bool" where
  "response_ok ext attrs e =
     (case e of
        ApiCall method args \<Rightarrow>
          method = ''answerInlineQuery'' \<and>
          (\<exists>qid items offs.
             args = [(''inline_query_id'', PStr qid),
                     (''cache_time'', PInt (cache attrs)),
                     (''is_personal'', PBool (inline_private attrs)),
                     (''results'', PStr (json_dumps ext (PList items))),
                     (''next_offset'', PInt (offs + paginate attrs))] \<and>
             map item_id items = map (\<lambda>i. Some (PInt i)) (py_range offs (offs + int (length items))))
      | _ \<Rightarrow> True)"

fun api_args :: "event \<Rightarrow> (string \<times> pyval) list" where
  "api_args (ApiCall method args) = args"
| "api_args e = []"

text \<open>Concrete objects on which the properties are exercised.\<close>

definition demo_api :: api_connection where
  "demo_api = \<lparr> api_reply = (\<lambda>method args. Inr (PBool True)) \<rparr>"

definition demo_ext :: externals where
  "demo_ext = \<lparr> format_docstr = (\<lambda>d. d), json_dumps = (\<lambda>v. ''[]'') \<rparr>"

definition demo_me :: user where
  "demo_me = \<lparr> user_id = 1, username = ''mybot'' \<rparr>"

definition demo_world :: "unit world" where
  "demo_world = \<lparr> trace = [], inline_offsets = (\<lambda>sid. None), ustate = () \<rparr>"

definition returning :: "string \<Rightarrow> pyval \<Rightarrow> unit callable" where
  "returning nm v = \<lparr> func_name = nm, func_doc = None, func_body = (\<lambda>pos kw u. (Inr v, u)) \<rparr>"

definition demo_bot :: "unit bot" where
  "demo_bot = snd (command (Bot_init demo_api demo_me) ''foo'' (ObjCallable (returning ''foo_handler'' PNone)))"

definition demo_message :: "string \<Rightarrow> message" where
  "demo_message txt = \<lparr> msg_chat = GroupChat 5, msg_text = Some txt \<rparr>"

definition demo_update :: "string \<Rightarrow> update" where
  "demo_update txt =
     \<lparr> update_id = 7, message = Some (demo_message txt), edited_message = None,
       channel_post = None, edited_channel_post = None, inline_query = None \<rparr>"

definition demo_component :: component where
  "demo_component = \<lparr> component_name = [], component_ident = 3 \<rparr>"

definition demo_inline_update :: "string \<Rightarrow> update" where
  "demo_inline_update offs =
     \<lparr> update_id = 8, message = None, edited_message = None, channel_post = None,
       edited_channel_post = None,
       inline_query = Some \<lparr> inline_id = ''q1'', sender = \<lparr> user_id = 42, username = ''ann'' \<rparr>,
                              query = ''cats'', offset = offs \<rparr> \<rparr>"

definition demo_inline_hook :: "unit hook" where
  "demo_inline_hook =
     Hook_init (InlineHook (InlineHook_after_init 300 True 5 0))
       (returning ''search'' (PIter (items_from 0))) demo_component"

definition demo_command_hook :: "unit hook" where
  "demo_command_hook =
     Hook_init
       (CommandHook \<lparr> cmd_regex = command_regex ''foo'', cmd_name = ''foo'',
                      cmd_hidden = False, cmd_order = 0 \<rparr>)
       (returning ''foo_handler'' PNone) demo_component"

definition demo_contains_hook :: "bool \<Rightarrow> unit hook" where
  "demo_contains_hook mlt =
     Hook_init (MessageContainsHook (MessageEqualsHook_after_init ''hi'' False mlt))
       (returning ''on_hi'' PNone) demo_component"



section \<open>Properties\<close>

subsection \<open>Invoice totals\<close>

lemma foldl_plus_snd: "foldl (\<lambda>acc item. acc + snd item) (a::int) xs = a + sum_list (map snd xs)"
  by (induction xs arbitrary: a) auto

lemma total_amount_sum: "total_amount iv = sum_list (map snd (items iv))"
  by (simp add: total_amount_def foldl_plus_snd)

lemma items_apply_call:
  "map snd (items (apply_call iv c)) = map snd (items iv) @ product_amounts [c]"
  by (cases c) (simp_all add: provider_def header_def photo_def request_for_def
      shipping_def add_product_def)

lemma product_amounts_append: "product_amounts (cs @ ds) = product_amounts cs @ product_amounts ds"
  by (induction cs rule: product_amounts.induct) simp_all

lemma items_foldl_calls:
  "map snd (items (foldl apply_call iv cs)) = map snd (items iv) @ product_amounts cs"
proof (induction cs arbitrary: iv)
  case Nil
  show ?case by simp
next
  case (Cons c cs)
  have "product_amounts (c # cs) = product_amounts [c] @ product_amounts cs"
    using product_amounts_append [of "[c]" cs] by simp
  with Cons show ?case by (simp add: items_apply_call)
qed

lemma total_run_calls: "total_amount (run_calls cs) = sum_list (product_amounts cs)"
  by (simp add: total_amount_sum run_calls_def items_foldl_calls Invoice_init_def)

lemma mset_product_amounts:
  "mset (product_amounts cs) = image_mset (\<lambda>c. case c of AddProduct l p \<Rightarrow> p | _ \<Rightarrow> 0)
     (filter_mset is_add_product (mset cs))"
  by (induction cs rule: product_amounts.induct) simp_all

lemma total_setter_unchanged:
  "\<not> is_add_product c \<Longrightarrow> total_amount (apply_call iv c) = total_amount iv"
  by (cases c) (simp_all add: total_amount_def provider_def header_def photo_def
      request_for_def shipping_def)

text \<open>
  C10. The total of an invoice is the sum of the amounts passed to
  \<^verbatim>\<open>add_product\<close> (0 on a fresh invoice), it is the same for every reordering of
  the calls, and the provider, header, photo, request_for and shipping setters leave
  it as it is.
\<close>

theorem invoice_total_amount:
  "total_amount (run_calls cs) = sum_list (product_amounts cs)
   \<and> total_amount (run_calls []) = 0
   \<and> (\<forall>cs'. mset cs' = mset cs \<longrightarrow> total_amount (run_calls cs') = total_amount (run_calls cs))
   \<and> (\<forall>iv c. \<not> is_add_product c \<longrightarrow> total_amount (apply_call iv c) = total_amount iv)"
proof (intro conjI allI impI)
  show "total_amount (run_calls cs) = sum_list (product_amounts cs)"
    by (rule total_run_calls)
  show "total_amount (run_calls []) = 0"
    by (simp add: total_run_calls)
next
  fix cs' assume "mset cs' = mset cs"
  then have "mset (product_amounts cs') = mset (product_amounts cs)"
    by (simp add: mset_product_amounts)
  then have "sum_list (product_amounts cs') = sum_list (product_amounts cs)"
    by (metis sum_mset_sum_list)
  then show "total_amount (run_calls cs') = total_amount (run_calls cs)"
    by (simp add: total_run_calls)
next
  fix iv c assume "\<not> is_add_product c"
  then show "total_amount (apply_call iv c) = total_amount iv"
    by (rule total_setter_unchanged)
qed

theorem invoice_total_amount_witness:
  "total_amount (run_calls [AddProduct ''tea'' 250, Shipping True False, AddProduct ''cup'' 700]) = 950
   \<and> total_amount (run_calls [AddProduct ''cup'' 700, AddProduct ''tea'' 250, Shipping True False]) = 950
   \<and> total_amount (apply_call (run_calls [AddProduct ''tea'' 250]) (Header ''t'' ''d'' ''p'' ''s'' ''EUR'')) = 250"
proof -
  let ?cs = "[AddProduct ''tea'' 250, Shipping True False, AddProduct ''cup'' 700]"
  let ?cs' = "[AddProduct ''cup'' 700, AddProduct ''tea'' 250, Shipping True False]"
  note main = invoice_total_amount [of ?cs]
  have a: "total_amount (run_calls ?cs) = 950"
    using main by simp
  have m: "mset ?cs' = mset ?cs"
    by (simp add: add_mset_commute)
  have b: "total_amount (run_calls ?cs') = 950"
    using main m a by metis
  have "\<not> is_add_product (Header ''t'' ''d'' ''p'' ''s'' ''EUR'')"
    by simp
  then have c: "total_amount (apply_call (run_calls [AddProduct ''tea'' 250]) (Header ''t'' ''d'' ''p'' ''s'' ''EUR''))
      = total_amount (run_calls [AddProduct ''tea'' 250])"
    using main by blast
  have d: "total_amount (run_calls [AddProduct ''tea'' 250]) = 250"
    using invoice_total_amount [of "[AddProduct ''tea'' 250]"] by simp
  from a b c d show ?thesis by simp
qed

subsection \<open>The matcher of the regular expressions\<close>

lemma in_ms_Lit: "(r, c') \<in> set (ms (Lit l) s c) \<longleftrightarrow> s = l @ r \<and> c' = c"
proof -
  have "take (length l) s = l \<Longrightarrow> s = l @ drop (length l) s"
    by (metis append_take_drop_id)
  then show ?thesis by auto
qed

lemma takeWhile_prefix_iff:
  "n \<le> length (takeWhile P s) \<longleftrightarrow> n \<le> length s \<and> (\<forall>x \<in> set (take n s). P x)"
proof (induction s arbitrary: n)
  case Nil
  show ?case by simp
next
  case (Cons a s)
  show ?case
  proof (cases n)
    case 0
    then show ?thesis by simp
  next
    case (Suc k)
    with Cons [of k] show ?thesis by auto
  qed
qed

lemma set_ms_Plus:
  "set (ms (Plus k) s c) = (\<lambda>n. (drop n s, c)) ` {1 .. length (takeWhile (in_cls k) s)}"
  by (simp add: atLeastLessThanSuc_atLeastAtMost del: upt_Suc)

lemma set_ms_Star:
  "set (ms (Star k) s c) = (\<lambda>n. (drop n s, c)) ` {0 .. length (takeWhile (in_cls k) s)}"
  by (simp add: atLeastLessThanSuc_atLeastAtMost del: upt_Suc)

lemma in_ms_Plus:
  "(r, c') \<in> set (ms (Plus k) s c) \<longleftrightarrow>
     c' = c \<and> (\<exists>p. p \<noteq> [] \<and> s = p @ r \<and> (\<forall>x \<in> set p. in_cls k x))"
proof
  assume "(r, c') \<in> set (ms (Plus k) s c)"
  then obtain n where n: "1 \<le> n" "n \<le> length (takeWhile (in_cls k) s)" "r = drop n s" "c' = c"
    unfolding set_ms_Plus by auto
  then have "n \<le> length s" "\<forall>x \<in> set (take n s). in_cls k x"
    by (simp_all add: takeWhile_prefix_iff)
  with n show "c' = c \<and> (\<exists>p. p \<noteq> [] \<and> s = p @ r \<and> (\<forall>x \<in> set p. in_cls k x))"
    by (intro conjI exI [of _ "take n s"]) auto
next
  assume "c' = c \<and> (\<exists>p. p \<noteq> [] \<and> s = p @ r \<and> (\<forall>x \<in> set p. in_cls k x))"
  then obtain p where p: "c' = c" "p \<noteq> []" "s = p @ r" "\<forall>x \<in> set p. in_cls k x"
    by blast
  then have "length p \<le> length (takeWhile (in_cls k) s)"
    by (simp add: takeWhile_prefix_iff)
  moreover have "1 \<le> length p" using p by (cases p) auto
  moreover have "r = drop (length p) s" using p by simp
  ultimately show "(r, c') \<in> set (ms (Plus k) s c)"
    unfolding set_ms_Plus using p(1) by (intro image_eqI [of _ _ "length p"]) auto
qed

lemma in_ms_Star:
  "(r, c') \<in> set (ms (Star k) s c) \<longleftrightarrow>
     c' = c \<and> (\<exists>p. s = p @ r \<and> (\<forall>x \<in> set p. in_cls k x))"
proof
  assume "(r, c') \<in> set (ms (Star k) s c)"
  then obtain n where n: "n \<le> length (takeWhile (in_cls k) s)" "r = drop n s" "c' = c"
    unfolding set_ms_Star by auto
  then have "n \<le> length s" "\<forall>x \<in> set (take n s). in_cls k x"
    by (simp_all add: takeWhile_prefix_iff)
  with n show "c' = c \<and> (\<exists>p. s = p @ r \<and> (\<forall>x \<in> set p. in_cls k x))"
    by (intro conjI exI [of _ "take n s"]) auto
next
  assume "c' = c \<and> (\<exists>p. s = p @ r \<and> (\<forall>x \<in> set p. in_cls k x))"
  then obtain p where p: "c' = c" "s = p @ r" "\<forall>x \<in> set p. in_cls k x"
    by blast
  then have "length p \<le> length (takeWhile (in_cls k) s)"
    by (simp add: takeWhile_prefix_iff)
  moreover have "r = drop (length p) s" using p by simp
  ultimately show "(r, c') \<in> set (ms (Star k) s c)"
    unfolding set_ms_Star using p(1) by (intro image_eqI [of _ _ "length p"]) auto
qed

lemma in_ms_Seq:
  "(r, c') \<in> set (ms (Seq a b) s c) \<longleftrightarrow>
     (\<exists>s1 c1. (s1, c1) \<in> set (ms a s c) \<and> (r, c') \<in> set (ms b s1 c1))"
  by force

lemma in_ms_Opt:
  "(r, c') \<in> set (ms (Opt a) s c) \<longleftrightarrow> (r, c') \<in> set (ms a s c) \<or> (r = s \<and> c' = c)"
  by auto

lemma in_ms_Group:
  "(r, c') \<in> set (ms (Group i a) s c) \<longleftrightarrow>
     (\<exists>c1. (r, c1) \<in> set (ms a s c) \<and> c' = c1(i \<mapsto> take (length s - length r) s))"
  by (force simp: image_iff)

lemma in_ms_Eol:
  "(r, c') \<in> set (ms Eol s c) \<longleftrightarrow> r = s \<and> c' = c \<and> (s = [] \<or> s = [newline])"
  by auto

lemma re_match_not_None:
  "re_match r s \<noteq> None \<longleftrightarrow> (\<exists>r' c'. (r', c') \<in> set (ms r s (\<lambda>i. None)))"
  by (cases "ms r s (\<lambda>i. None)") (auto simp: re_match_def)

lemma re_match_Some: "re_match r s = Some g \<Longrightarrow> \<exists>rest. (rest, g) \<in> set (ms r s (\<lambda>i. None))"
  by (auto simp: re_match_def split: list.splits)

declare ms.simps [simp del]

lemma in_ms_tail:
  "(r, c') \<in> set (ms (Seq (Opt (Group i (Seq (Lit '' '') (Star Dot)))) Eol) s c) \<longleftrightarrow>
     (r = s \<and> c' = c \<and> (s = [] \<or> s = [newline])) \<or>
     (\<exists>d. s = '' '' @ d @ r \<and> newline \<notin> set d \<and> (r = [] \<or> r = [newline])
          \<and> c' = c(i \<mapsto> '' '' @ d))"
  by (auto simp: in_ms_Seq in_ms_Opt in_ms_Group in_ms_Lit in_ms_Star in_ms_Eol)

lemma tail_start:
  assumes "(r, c') \<in> set (ms (Seq (Opt (Group i (Seq (Lit '' '') (Star Dot)))) Eol) s c)"
  shows "s = [] \<or> s = [newline] \<or> hd s = space" and "j \<noteq> i \<Longrightarrow> c' j = c j"
  using assms by (auto simp: in_ms_tail space_def)

lemma tail_intro:
  assumes "newline \<notin> set d"
  shows "(([], c(i \<mapsto> space # d)) \<in> set (ms (Seq (Opt (Group i (Seq (Lit '' '') (Star Dot)))) Eol) (space # d) c))"
  using assms by (simp add: in_ms_tail space_def)

lemma tail_intro_empty:
  "([], c) \<in> set (ms (Seq (Opt (Group i (Seq (Lit '' '') (Star Dot)))) Eol) [] c)"
  by (simp add: in_ms_tail)

lemma command_regex_match:
  assumes "(r, g) \<in> set (ms (command_regex nm) txt (\<lambda>i. None))"
  shows "\<exists>rest. txt = ''/'' @ nm @ rest \<and>
           ((g 1 = None \<and> (rest = [] \<or> rest = [newline] \<or> hd rest = space)) \<or>
            (\<exists>w r2. w \<noteq> [] \<and> list_all word_char w \<and> rest = ''@'' @ w @ r2
                \<and> g 1 = Some (''@'' @ w) \<and> (r2 = [] \<or> r2 = [newline] \<or> hd r2 = space)))"
proof -
  from assms obtain rest s2 c2 where
    dec: "txt = ''/'' @ nm @ rest" and
    og: "(s2, c2) \<in> set (ms (Opt (Group 1 (Seq (Lit ''@'') (Plus Word)))) rest (\<lambda>i. None))" and
    ta: "(r, g) \<in> set (ms (Seq (Opt (Group 2 (Seq (Lit '' '') (Star Dot)))) Eol) s2 c2)"
    unfolding command_regex_def by (fastforce simp: in_ms_Seq in_ms_Lit)
  from ta have st: "s2 = [] \<or> s2 = [newline] \<or> hd s2 = space" and g1: "g 1 = c2 1"
    using tail_start [OF ta] by auto
  from og consider (skip) "s2 = rest" "c2 = (\<lambda>i. None)"
    | (grp) w where "w \<noteq> []" "list_all word_char w" "rest = ''@'' @ w @ s2" "c2 1 = Some (''@'' @ w)"
    by (auto simp: in_ms_Opt in_ms_Group in_ms_Seq in_ms_Lit in_ms_Plus list_all_iff)
  then show ?thesis
  proof cases
    case skip
    with dec st g1 show ?thesis by auto
  next
    case grp
    with dec st g1 show ?thesis by auto
  qed
qed

subsection \<open>The patterns of the sources\<close>

lemma word_prefix_unique:
  assumes "w @ a = v @ b" "list_all P w" "list_all P v"
    and "a = [] \<or> \<not> P (hd a)" "b = [] \<or> \<not> P (hd b)"
  shows "w = v \<and> a = b"
proof -
  have "takeWhile P (w @ a) = w" using assms(2,4)
    by (cases a) (auto simp: list_all_iff)
  moreover have "takeWhile P (v @ b) = v" using assms(3,5)
    by (cases b) (auto simp: list_all_iff)
  ultimately have "w = v" using assms(1) by simp
  with assms(1) show ?thesis by simp
qed

lemma command_name_re_set:
  "(r, c') \<in> set (ms command_name_re nm c) \<longleftrightarrow>
     c' = c \<and> (r = [] \<or> r = [newline]) \<and> (\<exists>w. w \<noteq> [] \<and> list_all word_char w \<and> nm = w @ r)"
  unfolding command_name_re_def
  by (auto simp: in_ms_Seq in_ms_Plus in_ms_Eol list_all_iff)

lemma command_name_re_match:
  "re_match command_name_re nm \<noteq> None \<longleftrightarrow>
     (\<exists>w. w \<noteq> [] \<and> list_all word_char w \<and> (nm = w \<or> nm = w @ [newline]))"
proof
  assume "re_match command_name_re nm \<noteq> None"
  then obtain r c' where "(r, c') \<in> set (ms command_name_re nm (\<lambda>i. None))"
    unfolding re_match_not_None by blast
  then show "\<exists>w. w \<noteq> [] \<and> list_all word_char w \<and> (nm = w \<or> nm = w @ [newline])"
    by (auto simp: command_name_re_set)
next
  assume "\<exists>w. w \<noteq> [] \<and> list_all word_char w \<and> (nm = w \<or> nm = w @ [newline])"
  then obtain w where w: "w \<noteq> []" "list_all word_char w" "nm = w \<or> nm = w @ [newline]"
    by blast
  then have "([], \<lambda>i. None) \<in> set (ms command_name_re nm (\<lambda>i. None))
      \<or> ([newline], \<lambda>i. None) \<in> set (ms command_name_re nm (\<lambda>i. None))"
    by (auto simp: command_name_re_set)
  then show "re_match command_name_re nm \<noteq> None"
    unfolding re_match_not_None by blast
qed

lemma bot_commands_re_match:
  assumes "(r, g) \<in> set (ms (bot_commands_re un) txt (\<lambda>i. None))"
  shows "\<exists>w rest. txt = ''/'' @ w @ rest \<and> w \<noteq> [] \<and> list_all word_char w \<and> g 1 = Some w \<and>
           ((rest = [] \<or> rest = [newline] \<or> hd rest = space) \<or>
            (\<exists>r2. rest = ''@'' @ un @ r2 \<and> (r2 = [] \<or> r2 = [newline] \<or> hd r2 = space)))"
proof -
  from assms obtain s1 s2 s3 c1 c2 where
    dec: "txt = ''/'' @ s1" and
    g1: "(s2, c1) \<in> set (ms (Group 1 (Plus Word)) s1 (\<lambda>i. None))" and
    og: "(s3, c2) \<in> set (ms (Opt (Group 2 (Seq (Lit ''@'') (Lit un)))) s2 c1)" and
    ta: "(r, g) \<in> set (ms (Seq (Opt (Group 3 (Seq (Lit '' '') (Star Dot)))) Eol) s3 c2)"
    unfolding bot_commands_re_def by (fastforce simp: in_ms_Seq in_ms_Lit)
  from g1 obtain w where w: "w \<noteq> []" "list_all word_char w" "s1 = w @ s2" "c1 1 = Some w"
    by (auto simp: in_ms_Group in_ms_Plus list_all_iff)
  from ta have st: "s3 = [] \<or> s3 = [newline] \<or> hd s3 = space" and g: "g 1 = c2 1" "g 2 = c2 2"
    using tail_start [OF ta] by auto
  from og consider (skip) "s3 = s2" "c2 = c1"
    | (grp) "s2 = ''@'' @ un @ s3" "c2 1 = c1 1"
    by (auto simp: in_ms_Opt in_ms_Group in_ms_Seq in_ms_Lit)
  then show ?thesis
  proof cases
    case skip
    with dec w st g show ?thesis by auto
  next
    case grp
    with dec w st g show ?thesis by auto
  qed
qed

lemma not_word_char_special [simp]:
  "\<not> word_char newline" "\<not> word_char space" "\<not> word_char tab" "\<not> word_char CHR ''@''"
  "\<not> word_char CHR ''/''" "\<not> word_char CHR '' ''"
  by (simp_all add: word_char_def newline_def space_def tab_def)

lemma command_regex_intro:
  assumes "newline \<notin> set d" "rest = [] \<or> rest = space # d"
  shows "\<exists>r g. (r, g) \<in> set (ms (command_regex nm) (''/'' @ nm @ rest) c)"
    and "w \<noteq> [] \<Longrightarrow> list_all word_char w \<Longrightarrow>
         \<exists>r g. (r, g) \<in> set (ms (command_regex nm) (''/'' @ nm @ ''@'' @ w @ rest) c)"
proof -
  let ?tail = "Seq (Opt (Group 2 (Seq (Lit '' '') (Star Dot)))) Eol"
  have t: "\<exists>r g. (r, g) \<in> set (ms ?tail rest c')" for c'
    using assms tail_intro [of d c' 2] tail_intro_empty [of c' 2] by auto
  show "\<exists>r g. (r, g) \<in> set (ms (command_regex nm) (''/'' @ nm @ rest) c)"
    unfolding command_regex_def using t [of c]
    by (simp add: in_ms_Seq [of _ _ "Lit _"] in_ms_Seq [of _ _ "Opt _"] in_ms_Lit in_ms_Opt) blast
  assume w: "w \<noteq> []" "list_all word_char w"
  have "(rest, (c(1 \<mapsto> ''@'' @ w))) \<in> set (ms (Group 1 (Seq (Lit ''@'') (Plus Word))) (''@'' @ w @ rest) c)"
    using w by (auto simp: in_ms_Group in_ms_Seq in_ms_Lit in_ms_Plus list_all_iff)
  then show "\<exists>r g. (r, g) \<in> set (ms (command_regex nm) (''/'' @ nm @ ''@'' @ w @ rest) c)"
    unfolding command_regex_def using t [of "c(1 \<mapsto> ''@'' @ w)"]
    by (simp add: in_ms_Seq [of _ _ "Lit _"] in_ms_Seq [of _ _ "Opt _"] in_ms_Lit in_ms_Opt) blast
qed

lemma bot_commands_re_intro:
  assumes "w \<noteq> []" "list_all word_char w" "newline \<notin> set d" "rest = [] \<or> rest = space # d"
  shows "\<exists>r g. (r, g) \<in> set (ms (bot_commands_re un) (''/'' @ w @ rest) c)"
    and "\<exists>r g. (r, g) \<in> set (ms (bot_commands_re un) (''/'' @ w @ ''@'' @ un @ rest) c)"
proof -
  let ?tail = "Seq (Opt (Group 3 (Seq (Lit '' '') (Star Dot)))) Eol"
  have t: "\<exists>r g. (r, g) \<in> set (ms ?tail rest c')" for c'
    using assms tail_intro [of d c' 3] tail_intro_empty [of c' 3] by auto
  have g1: "(x, c(1 \<mapsto> w)) \<in> set (ms (Group 1 (Plus Word)) (w @ x) c)" for x
    using assms by (auto simp: in_ms_Group in_ms_Plus list_all_iff)
  show "\<exists>r g. (r, g) \<in> set (ms (bot_commands_re un) (''/'' @ w @ rest) c)"
    unfolding bot_commands_re_def using t [of "c(1 \<mapsto> w)"] g1 [of rest]
    by (simp add: in_ms_Seq [of _ _ "Lit _"] in_ms_Seq [of _ _ "Group _ _"] in_ms_Seq [of _ _ "Opt _"]
        in_ms_Lit in_ms_Opt) blast
  have g2: "(rest, (c(1 \<mapsto> w))(2 \<mapsto> ''@'' @ un)) \<in>
      set (ms (Group 2 (Seq (Lit ''@'') (Lit un))) (''@'' @ un @ rest) (c(1 \<mapsto> w)))"
    by (auto simp: in_ms_Group in_ms_Seq in_ms_Lit)
  show "\<exists>r g. (r, g) \<in> set (ms (bot_commands_re un) (''/'' @ w @ ''@'' @ un @ rest) c)"
    unfolding bot_commands_re_def using t [of "(c(1 \<mapsto> w))(2 \<mapsto> ''@'' @ un)"] g1 [of "''@'' @ un @ rest"] g2
    by (simp add: in_ms_Seq [of _ _ "Lit _"] in_ms_Seq [of _ _ "Group _ _"] in_ms_Seq [of _ _ "Opt _"]
        in_ms_Lit in_ms_Opt) blast
qed

lemma split_on_nonempty [simp]: "split_on sep s \<noteq> []"
  by (induction s) (auto split: list.splits)

lemma split_on_no_sep: "sep \<notin> set s \<Longrightarrow> split_on sep s = [s]"
  by (induction s) auto

lemma split_on_append: "sep \<notin> set a \<Longrightarrow> split_on sep (a @ sep # b) = a # split_on sep b"
  by (induction a) auto

lemma split_spaces_nonempty [simp]: "split_spaces s \<noteq> []"
  by (induction s rule: split_spaces.induct) (auto split: list.splits)

lemma split_spaces_no_space: "space \<notin> set s \<Longrightarrow> split_spaces s = [s]"
  by (induction s) auto

lemma split_spaces_append:
  "space \<notin> set a \<Longrightarrow>
     split_spaces (a @ space # b) = a # split_spaces (dropWhile (\<lambda>c. c = space) b)"
  by (induction a) auto

subsection \<open>The hook chains\<close>



subsection \<open>Dictionaries and the help command\<close>

lemma map_of_dict_set: "map_of (dict_set k v d) k' = (if k' = k then Some v else map_of d k')"
  by (induction d) auto

lemma keys_dict_set: "set (dict_keys (dict_set k v d)) = insert k (set (dict_keys d))"
  by (induction d) (auto simp: dict_keys_def)

lemma keys_dict_update:
  "set (dict_keys (dict_update d other)) = set (dict_keys d) \<union> set (dict_keys other)"
proof -
  have "set (dict_keys (foldl (\<lambda>acc kv. dict_set (fst kv) (snd kv) acc) d other))
      = set (dict_keys d) \<union> fst ` set other"
    by (induction other arbitrary: d) (auto simp: keys_dict_set)
  then show ?thesis by (simp add: dict_update_def dict_keys_def)
qed

lemma map_of_dict_update_other:
  "k \<notin> set (dict_keys other) \<Longrightarrow> map_of (dict_update d other) k = map_of d k"
proof -
  have "k \<notin> fst ` set other \<Longrightarrow>
      map_of (foldl (\<lambda>acc kv. dict_set (fst kv) (snd kv) acc) d other) k = map_of d k"
    by (induction other arbitrary: d) (auto simp: map_of_dict_set)
  then show "k \<notin> set (dict_keys other) \<Longrightarrow> map_of (dict_update d other) k = map_of d k"
    by (simp add: dict_update_def dict_keys_def)
qed

lemma get_commands_help:
  assumes "bot_invariant b" "''help'' \<notin> set (dict_keys (commands b))"
  shows "map_of (get_commands b) ''help'' = Some DefaultHelp"
proof -
  have "''help'' \<notin> set (dict_keys (map (\<lambda>kf. (fst kf, UserCommand (snd kf))) (commands b)))"
    using assms(2) by (simp add: dict_keys_def image_image)
  then have "map_of (get_commands b) ''help'' = map_of (default_commands b) ''help''"
    unfolding get_commands_def by (rule map_of_dict_update_other)
  with assms(1) show ?thesis by (simp add: bot_invariant_def)
qed

lemma help_unknown_direct:
  assumes "nm \<notin> set (dict_keys (get_commands b))"
  shows "default_help_command ext b c m [nm] w =
           (Inr PNone, send c (''Error: Unknow command: /'' @ nm @ [newline] @
                               ''Use /help for a list of commands.'') w)"
  using assms by (simp add: default_help_command_def Let_def)

lemma bot_re_match_word:
  assumes "cmd \<noteq> []" "list_all word_char cmd" "newline \<notin> set d" "rest = [] \<or> rest = space # d"
  shows "\<exists>g. re_match (bot_commands_re un) (''/'' @ cmd @ rest) = Some g \<and> g 1 = Some cmd"
proof -
  from bot_commands_re_intro(1) [OF assms]
  have "re_match (bot_commands_re un) (''/'' @ cmd @ rest) \<noteq> None"
    unfolding re_match_not_None by blast
  then obtain g where g: "re_match (bot_commands_re un) (''/'' @ cmd @ rest) = Some g"
    by blast
  then obtain r where "(r, g) \<in> set (ms (bot_commands_re un) (''/'' @ cmd @ rest) (\<lambda>i. None))"
    using re_match_Some by blast
  from bot_commands_re_match [OF this] obtain w rest' where
    w: "''/'' @ cmd @ rest = ''/'' @ w @ rest'" "list_all word_char w" "g 1 = Some w"
      "rest' = [] \<or> \<not> word_char (hd rest')"
    by fastforce
  have "rest = [] \<or> \<not> word_char (hd rest)" using assms(4) by auto
  with w assms(2) have "cmd = w"
    using word_prefix_unique [of cmd rest w rest' word_char] by simp
  with g w show ?thesis by simp
qed

lemma bot_commands_re_group:
  assumes "re_match (bot_commands_re un) s = Some g"
  shows "\<exists>w. g 1 = Some w \<and> w \<noteq> []"
proof -
  from assms obtain r where "(r, g) \<in> set (ms (bot_commands_re un) s (\<lambda>i. None))"
    using re_match_Some by blast
  from bot_commands_re_match [OF this] show ?thesis by blast
qed

lemma help_unknown_dispatch:
  assumes "nm \<notin> set (dict_keys (get_commands b))"
    and "bot_invariant b" "''help'' \<notin> set (dict_keys (commands b))"
    and "space \<notin> set nm" "newline \<notin> set nm" "msg_text m = Some (''/help '' @ nm)"
  shows "process_commands ext b c m w =
           (Inr (PBool True), send c (''Error: Unknow command: /'' @ nm @ [newline] @
                               ''Use /help for a list of commands.'') w)"
proof -
  have wc: "list_all word_char ''help''" by (simp add: word_char_def)
  have "''/help '' @ nm = ''/'' @ ''help'' @ (space # nm)" by (simp add: space_def)
  then obtain g where g: "re_match (bot_commands_re (username (itself b))) (''/help '' @ nm) = Some g"
      "g 1 = Some ''help''"
    using bot_re_match_word [of "''help''" nm "space # nm" "username (itself b)"] wc assms(5)
    by auto
  have sp: "split_on space (''/help '' @ nm) = [''/help'', nm]"
    using split_on_append [of space "''/help''" nm] assms(4)
    by (simp add: space_def split_on_no_sep)
  have re: "commands_re b = bot_commands_re (username (itself b))"
    using assms(2) by (simp add: bot_invariant_def)
  show ?thesis
    using assms(6) g sp re get_commands_help [OF assms(2,3)] help_unknown_direct [OF assms(1)]
    by (simp add: process_commands_def Let_def run_command_def)
qed



subsection \<open>Commands addressed to another bot\<close>

lemma normalize_no_newline: "newline \<notin> set (normalize raw)"
  by (auto simp: normalize_def replace_char_def newline_def space_def tab_def)

lemma normalize_word: "list_all word_char s \<Longrightarrow> normalize s = s"
  by (induction s) (auto simp: normalize_def replace_char_def)

lemma normalize_append: "normalize (a @ b) = normalize a @ normalize b"
  by (simp add: normalize_def replace_char_def)

lemma normalize_Cons: "normalize (x # b) = (if x = newline \<or> x = tab then space else x) # normalize b"
  by (simp add: normalize_def replace_char_def)

lemma normalize_start:
  "rest = [] \<or> \<not> word_char (hd rest) \<Longrightarrow> normalize rest = [] \<or> \<not> word_char (hd (normalize rest))"
  by (cases rest) (auto simp: normalize_Cons normalize_def replace_char_def)

lemma valid_name_in_text:
  assumes "CommandHook_after_init args = Inr attrs" "newline \<notin> set (arg_name args)"
  shows "list_all word_char (arg_name args)" "arg_name args \<noteq> []"
    "cmd_regex attrs = command_regex (arg_name args)"
proof -
  from assms(1) have "re_match command_name_re (arg_name args) \<noteq> None"
    by (auto simp: CommandHook_after_init_def split: option.splits)
  then obtain w where w: "w \<noteq> []" "list_all word_char w"
      "arg_name args = w \<or> arg_name args = w @ [newline]"
    unfolding command_name_re_match by blast
  with assms(2) have "arg_name args = w" by auto
  with w show "list_all word_char (arg_name args)" "arg_name args \<noteq> []" by simp_all
  from assms(1) show "cmd_regex attrs = command_regex (arg_name args)"
    by (auto simp: CommandHook_after_init_def split: option.splits)
qed

lemma start_not_word:
  "s = [] \<or> s = [newline] \<or> hd s = space \<Longrightarrow> s = [] \<or> \<not> word_char (hd s)"
  by auto

lemma CommandHook_call_other_bot:
  assumes init: "CommandHook_after_init args = Inr attrs"
    and msg: "message u = Some m" "msg_text m = Some (''/'' @ cmd @ ''@'' @ sfx @ rest)"
    and shape: "list_all word_char cmd" "list_all word_char sfx" "rest = [] \<or> \<not> word_char (hd rest)"
    and other: "sfx \<noteq> username (itself b)"
  shows "CommandHook_call b h attrs u w = (Inr PNone, w)"
proof -
  let ?raw = "''/'' @ cmd @ ''@'' @ sfx @ rest"
  let ?txt = "normalize ?raw"
  have tx: "?txt = ''/'' @ cmd @ ''@'' @ sfx @ normalize rest"
    using shape(1,2) by (simp add: normalize_append normalize_word normalize_Cons newline_def tab_def)
  have nrest: "normalize rest = [] \<or> \<not> word_char (hd (normalize rest))"
    using shape(3) by (rule normalize_start)
  have key: "g 1 = Some (''@'' @ sfx)" if g: "re_match (cmd_regex attrs) ?txt = Some g" for g
  proof -
    from init have re: "cmd_regex attrs = command_regex (arg_name args)"
      by (auto simp: CommandHook_after_init_def split: option.splits)
    from g re obtain r where "(r, g) \<in> set (ms (command_regex (arg_name args)) ?txt (\<lambda>i. None))"
      using re_match_Some by metis
    from command_regex_match [OF this] obtain rest0 where
      dec: "?txt = ''/'' @ arg_name args @ rest0" and
      alt: "(g 1 = None \<and> (rest0 = [] \<or> rest0 = [newline] \<or> hd rest0 = space)) \<or>
            (\<exists>w r2. w \<noteq> [] \<and> list_all word_char w \<and> rest0 = ''@'' @ w @ r2
                \<and> g 1 = Some (''@'' @ w) \<and> (r2 = [] \<or> r2 = [newline] \<or> hd r2 = space))"
      by blast
    have "newline \<notin> set (arg_name args)"
      using normalize_no_newline [of ?raw] dec by (metis Un_iff set_append)
    from valid_name_in_text(1) [OF init this] have nm: "list_all word_char (arg_name args)" .
    have r0: "rest0 = [] \<or> \<not> word_char (hd rest0)"
      using alt by (auto dest: start_not_word)
    have eq: "cmd @ (''@'' @ sfx @ normalize rest) = arg_name args @ rest0"
      using tx dec by simp
    have "cmd = arg_name args \<and> ''@'' @ sfx @ normalize rest = rest0"
      using word_prefix_unique [OF eq shape(1) nm _ r0] by simp
    then have rest0: "rest0 = ''@'' @ sfx @ normalize rest" by simp
    with alt obtain w r2 where w: "list_all word_char w" "rest0 = ''@'' @ w @ r2"
        "g 1 = Some (''@'' @ w)" "r2 = [] \<or> r2 = [newline] \<or> hd r2 = space"
      by (auto simp: space_def newline_def)
    have "sfx @ normalize rest = w @ r2" using rest0 w(2) by simp
    from word_prefix_unique [OF this shape(2) w(1) nrest start_not_word [OF w(4)]]
    have "sfx = w" by simp
    with w(3) show ?thesis by simp
  qed
  show ?thesis
  proof (cases "re_match (cmd_regex attrs) ?txt")
    case None
    with msg show ?thesis
      by (simp add: CommandHook_call_def normalize_def Let_def)
  next
    case (Some g)
    from key [OF Some] other have "g 1 = Some (''@'' @ sfx)" "''@'' @ sfx \<noteq> ''@'' @ username (itself b)"
      by simp_all
    with msg Some show ?thesis
      by (simp add: CommandHook_call_def normalize_def Let_def)
  qed
qed

lemma process_commands_other_bot:
  assumes inv: "bot_invariant b"
    and msg: "msg_text m = Some (''/'' @ cmd @ ''@'' @ sfx @ rest)"
    and shape: "list_all word_char cmd" "list_all word_char sfx" "rest = [] \<or> \<not> word_char (hd rest)"
    and other: "sfx \<noteq> username (itself b)"
  shows "process_commands ext b c m w = (Inr PNone, w)"
proof -
  from inv have uname: "list_all word_char (username (itself b))"
    by (simp add: bot_invariant_def)
  let ?un = "username (itself b)"
  let ?txt = "''/'' @ cmd @ ''@'' @ sfx @ rest"
  have "re_match (bot_commands_re ?un) ?txt = None"
  proof (rule ccontr)
    assume "re_match (bot_commands_re ?un) ?txt \<noteq> None"
    then obtain r g where "(r, g) \<in> set (ms (bot_commands_re ?un) ?txt (\<lambda>i. None))"
      unfolding re_match_not_None by blast
    from bot_commands_re_match [OF this] obtain w0 rest0 where
      dec: "?txt = ''/'' @ w0 @ rest0" "list_all word_char w0" and
      alt: "(rest0 = [] \<or> rest0 = [newline] \<or> hd rest0 = space) \<or>
            (\<exists>r2. rest0 = ''@'' @ ?un @ r2 \<and> (r2 = [] \<or> r2 = [newline] \<or> hd r2 = space))"
      by blast
    have r0: "rest0 = [] \<or> \<not> word_char (hd rest0)"
      using alt by (auto dest: start_not_word)
    have eq: "cmd @ (''@'' @ sfx @ rest) = w0 @ rest0" using dec(1) by simp
    have "cmd = w0 \<and> ''@'' @ sfx @ rest = rest0"
      using word_prefix_unique [OF eq shape(1) dec(2) _ r0] by simp
    then have rest0: "rest0 = ''@'' @ sfx @ rest" by simp
    with alt obtain r2 where r2: "rest0 = ''@'' @ ?un @ r2" "r2 = [] \<or> r2 = [newline] \<or> hd r2 = space"
      by (auto simp: space_def newline_def)
    have "sfx @ rest = ?un @ r2" using rest0 r2(1) by simp
    from word_prefix_unique [OF this shape(2) uname shape(3) start_not_word [OF r2(2)]]
    have "sfx = ?un" by simp
    with other show False by simp
  qed
  with inv msg show ?thesis
    by (simp add: process_commands_def bot_invariant_def)
qed

subsection \<open>The arguments of a command\<close>

lemma word_no_space: "list_all word_char s \<Longrightarrow> space \<notin> set s"
  by (auto simp: list_all_iff)

lemma CommandHook_call_invokes:
  assumes init: "CommandHook_after_init args = Inr attrs"
    and msg: "message u = Some m" "msg_text m = Some raw"
    and shape: "normalize raw = ''/'' @ arg_name args @ mention @ rest"
      "mention = [] \<or> (mention = ''@'' @ username (itself b) \<and> username (itself b) \<noteq> []
          \<and> list_all word_char (username (itself b)))"
      "rest = [] \<or> hd rest = space"
  shows "CommandHook_call b h attrs u w =
           (case bot_call b (func h) (component_id h)
                   [(''chat'', AChat (msg_chat m)), (''message'', AMessage m),
                    (''args'', AArgs (tl (split_spaces (normalize raw))))] w of
              (Inl e, w') \<Rightarrow> (Inl e, w')
            | (Inr r, w') \<Rightarrow> (Inr (PBool True), w'))"
    and "split_spaces (normalize raw) =
           (''/'' @ arg_name args @ mention)
             # (if rest = [] then [] else split_spaces (dropWhile (\<lambda>c. c = space) (tl rest)))"
proof -
  let ?nm = "arg_name args"
  let ?un = "username (itself b)"
  let ?txt = "normalize raw"
  have nonl: "newline \<notin> set ?txt" by (rule normalize_no_newline)
  then have "newline \<notin> set ?nm" using shape(1) by (metis Un_iff set_append)
  note valid = valid_name_in_text [OF init this]
  obtain d where d: "rest = [] \<or> rest = space # d" "newline \<notin> set d"
  proof (cases rest)
    case Nil
    then show ?thesis using that [of "[]"] by simp
  next
    case (Cons x xs)
    with shape(3) nonl shape(1) show ?thesis using that [of xs] by auto
  qed
  have ex: "re_match (command_regex ?nm) ?txt \<noteq> None"
  proof (cases "mention = []")
    case True
    with command_regex_intro(1) [OF d(2,1), of ?nm] shape(1) show ?thesis
      unfolding re_match_not_None by simp
  next
    case False
    with shape(2) have "mention = ''@'' @ ?un" "?un \<noteq> []" "list_all word_char ?un" by auto
    with command_regex_intro(2) [OF d(2,1), of ?un ?nm] shape(1) show ?thesis
      unfolding re_match_not_None by simp
  qed
  then obtain g where g: "re_match (command_regex ?nm) ?txt = Some g" by blast
  then obtain r where "(r, g) \<in> set (ms (command_regex ?nm) ?txt (\<lambda>i. None))"
    using re_match_Some by blast
  from command_regex_match [OF this] obtain rest0 where
    dec: "?txt = ''/'' @ ?nm @ rest0" and
    alt: "(g 1 = None \<and> (rest0 = [] \<or> rest0 = [newline] \<or> hd rest0 = space)) \<or>
          (\<exists>w r2. w \<noteq> [] \<and> list_all word_char w \<and> rest0 = ''@'' @ w @ r2
              \<and> g 1 = Some (''@'' @ w) \<and> (r2 = [] \<or> r2 = [newline] \<or> hd r2 = space))"
    by blast
  from dec shape(1) have rest0: "rest0 = mention @ rest" by simp
  have pass: "g 1 = None \<or> g 1 = Some (''@'' @ ?un)"
  proof (cases "mention = []")
    case True
    with rest0 shape(3) alt show ?thesis by (auto simp: space_def)
  next
    case False
    with shape(2) have m: "mention = ''@'' @ ?un" "list_all word_char ?un" by auto
    with rest0 alt obtain w r2 where w: "list_all word_char w" "rest0 = ''@'' @ w @ r2"
        "g 1 = Some (''@'' @ w)" "r2 = [] \<or> r2 = [newline] \<or> hd r2 = space"
      by (auto simp: space_def newline_def)
    have "?un @ rest = w @ r2" using rest0 w(2) m(1) by simp
    moreover have "rest = [] \<or> \<not> word_char (hd rest)" using shape(3) by auto
    ultimately have "?un = w"
      using word_prefix_unique [of ?un rest w r2 word_char] m(2) w(1) start_not_word [OF w(4)]
      by simp
    with w(3) show ?thesis by simp
  qed
  from pass have cond: "\<not> (case g 1 of None \<Rightarrow> False | Some x \<Rightarrow> x \<noteq> [] \<and> x \<noteq> ''@'' @ ?un)"
    by auto
  show "CommandHook_call b h attrs u w =
           (case bot_call b (func h) (component_id h)
                   [(''chat'', AChat (msg_chat m)), (''message'', AMessage m),
                    (''args'', AArgs (tl (split_spaces (normalize raw))))] w of
              (Inl e, w') \<Rightarrow> (Inl e, w')
            | (Inr r, w') \<Rightarrow> (Inr (PBool True), w'))"
    using msg g cond valid(3)
    by (simp add: CommandHook_call_def Let_def normalize_def [symmetric])
  have tok: "space \<notin> set (''/'' @ ?nm @ mention)"
    using valid(1) shape(2) by (auto dest: word_no_space simp: space_def)
  show "split_spaces (normalize raw) =
           (''/'' @ arg_name args @ mention)
             # (if rest = [] then [] else split_spaces (dropWhile (\<lambda>c. c = space) (tl rest)))"
  proof (cases rest)
    case Nil
    with shape(1) split_spaces_no_space [OF tok] show ?thesis by simp
  next
    case (Cons x xs)
    with shape(3) have "rest = space # xs" by simp
    with shape(1) have "normalize raw = (''/'' @ ?nm @ mention) @ space # xs" by simp
    with split_spaces_append [OF tok, of xs] Cons show ?thesis by simp
  qed
qed

lemma CommandHook_call_claimed:
  assumes init: "CommandHook_after_init args = Inr attrs"
    and claimed: "fst (CommandHook_call b h attrs u w) = Inr (PBool True)"
  shows "\<exists>m raw mention rest. message u = Some m \<and> msg_text m = Some raw
           \<and> normalize raw = ''/'' @ arg_name args @ mention @ rest
           \<and> (mention = [] \<or> mention = ''@'' @ username (itself b))
           \<and> (rest = [] \<or> hd rest = space)"
proof -
  from claimed obtain m raw g where
    msg: "message u = Some m" "msg_text m = Some raw" and
    g: "re_match (cmd_regex attrs) (normalize raw) = Some g" and
    cond: "\<not> (case g 1 of None \<Rightarrow> False | Some x \<Rightarrow> x \<noteq> [] \<and> x \<noteq> ''@'' @ username (itself b))"
    by (auto simp: CommandHook_call_def Let_def normalize_def [symmetric]
        split: option.splits if_splits)
  from init have re: "cmd_regex attrs = command_regex (arg_name args)"
    by (auto simp: CommandHook_after_init_def split: option.splits)
  from g re obtain r where "(r, g) \<in> set (ms (command_regex (arg_name args)) (normalize raw) (\<lambda>i. None))"
    using re_match_Some by metis
  from command_regex_match [OF this] obtain rest0 where
    dec: "normalize raw = ''/'' @ arg_name args @ rest0" and
    alt: "(g 1 = None \<and> (rest0 = [] \<or> rest0 = [newline] \<or> hd rest0 = space)) \<or>
          (\<exists>w r2. w \<noteq> [] \<and> list_all word_char w \<and> rest0 = ''@'' @ w @ r2
              \<and> g 1 = Some (''@'' @ w) \<and> (r2 = [] \<or> r2 = [newline] \<or> hd r2 = space))"
    by blast
  have nonl: "newline \<notin> set rest0"
    using normalize_no_newline [of raw] dec by (metis Un_iff set_append)
  from alt show ?thesis
  proof
    assume a: "g 1 = None \<and> (rest0 = [] \<or> rest0 = [newline] \<or> hd rest0 = space)"
    with nonl have "rest0 = [] \<or> hd rest0 = space" by auto
    with msg dec show ?thesis by (intro exI [of _ m] exI [of _ raw] exI [of _ "[]"] exI [of _ rest0]) simp
  next
    assume "\<exists>w r2. w \<noteq> [] \<and> list_all word_char w \<and> rest0 = ''@'' @ w @ r2
              \<and> g 1 = Some (''@'' @ w) \<and> (r2 = [] \<or> r2 = [newline] \<or> hd r2 = space)"
    then obtain w r2 where w: "rest0 = ''@'' @ w @ r2" "g 1 = Some (''@'' @ w)"
        "r2 = [] \<or> r2 = [newline] \<or> hd r2 = space"
      by blast
    with cond have "w = username (itself b)" by simp
    moreover have "r2 = [] \<or> hd r2 = space" using w(1,3) nonl by auto
    ultimately show ?thesis using msg dec w(1)
      by (intro exI [of _ m] exI [of _ raw] exI [of _ "''@'' @ w"] exI [of _ r2]) simp
  qed
qed

subsection \<open>Command names and the message-contains hook\<close>



lemma bot_call_returns:
  assumes "func_body (func h) [] kw (ustate w) = (Inr v, s')"
  shows "bot_call b (func h) (component_id h) kw w
           = (Inr v, (emit (Invoked (func_name (func h)) [] kw) w)\<lparr>ustate := s'\<rparr>)"
  using assms by (simp add: bot_call_def invoke_def)

lemma contains_loop_multiple:
  assumes nr: "\<And>kw s. \<exists>v s'. func_body (func h) [] kw s = (Inr v, s')"
    and mu: "multiple attrs"
  shows "\<exists>res' w'. contains_loop b h attrs m toks res w = (Inr res', w')
           \<and> length res' = length res + count_list toks (match_string attrs)
           \<and> trace w' = trace w @
                replicate (count_list toks (match_string attrs)) (message_event h m)"
proof (induction toks arbitrary: res w)
  case Nil
  show ?case by simp
next
  case (Cons one rest)
  show ?case
  proof (cases "one = match_string attrs")
    case False
    with Cons [of res w] show ?thesis by simp
  next
    case True
    let ?kw = "[(''chat'', AChat (msg_chat m)), (''message'', AMessage m)]"
    from nr [of ?kw "ustate w"] obtain v s' where
      body: "func_body (func h) [] ?kw (ustate w) = (Inr v, s')" by blast
    let ?w1 = "(emit (message_event h m) w)\<lparr>ustate := s'\<rparr>"
    have bc: "bot_call b (func h) (component_id h) ?kw w = (Inr v, ?w1)"
      using bot_call_returns [OF body] by (simp add: message_event_def)
    have tr: "trace ?w1 = trace w @ [message_event h m]"
      by (simp add: emit_def)
    from Cons [of "res @ [v]" ?w1] obtain res' w' where
      ih: "contains_loop b h attrs m rest (res @ [v]) ?w1 = (Inr res', w')"
        "length res' = length (res @ [v]) + count_list rest (match_string attrs)"
        "trace w' = trace ?w1 @ replicate (count_list rest (match_string attrs)) (message_event h m)"
      by blast
    have "contains_loop b h attrs m (one # rest) res w = (Inr res', w')"
      using True bc mu ih(1) by simp
    moreover have "length res' = length res + count_list (one # rest) (match_string attrs)"
      using True ih(2) by simp
    moreover have "trace w' = trace w @
        replicate (count_list (one # rest) (match_string attrs)) (message_event h m)"
      using True ih(3) tr by (simp add: replicate_app_Cons_same)
    ultimately show ?thesis by blast
  qed
qed

lemma contains_loop_single:
  assumes nr: "\<And>kw s. \<exists>v s'. func_body (func h) [] kw s = (Inr v, s')"
    and mu: "\<not> multiple attrs"
  shows "\<exists>res' w'. contains_loop b h attrs m toks res w = (Inr res', w')
           \<and> length res' = length res + min 1 (count_list toks (match_string attrs))
           \<and> trace w' = trace w @
                replicate (min 1 (count_list toks (match_string attrs))) (message_event h m)"
proof (induction toks arbitrary: res w)
  case Nil
  show ?case by simp
next
  case (Cons one rest)
  show ?case
  proof (cases "one = match_string attrs")
    case False
    with Cons [of res w] show ?thesis by simp
  next
    case True
    let ?kw = "[(''chat'', AChat (msg_chat m)), (''message'', AMessage m)]"
    from nr [of ?kw "ustate w"] obtain v s' where
      body: "func_body (func h) [] ?kw (ustate w) = (Inr v, s')" by blast
    let ?w1 = "(emit (message_event h m) w)\<lparr>ustate := s'\<rparr>"
    have bc: "bot_call b (func h) (component_id h) ?kw w = (Inr v, ?w1)"
      using bot_call_returns [OF body] by (simp add: message_event_def)
    have tr: "trace ?w1 = trace w @ [message_event h m]"
      by (simp add: emit_def)
    have one: "min 1 (count_list (one # rest) (match_string attrs)) = 1"
      using True by simp
    have "contains_loop b h attrs m (one # rest) res w = (Inr (res @ [v]), ?w1)"
      using True bc mu by simp
    then show ?thesis unfolding one using tr by simp
  qed
qed

lemma contains_loop_no_raise:
  assumes nr: "\<And>kw s. \<exists>v s'. func_body (func h) [] kw s = (Inr v, s')"
  shows "\<exists>res' w'. contains_loop b h attrs m toks res w = (Inr res', w')
           \<and> length res' = length res +
                (if multiple attrs then count_list toks (match_string attrs)
                 else min 1 (count_list toks (match_string attrs)))
           \<and> trace w' = trace w @
                replicate (if multiple attrs then count_list toks (match_string attrs)
                           else min 1 (count_list toks (match_string attrs))) (message_event h m)"
proof (cases "multiple attrs")
  case True
  with contains_loop_multiple [OF nr True, of b m toks res w] show ?thesis by simp
next
  case False
  with contains_loop_single [OF nr False, of b m toks res w] show ?thesis by simp
qed

lemma MessageContainsHook_call_counts:
  assumes nr: "\<And>kw s. \<exists>v s'. func_body (func h) [] kw s = (Inr v, s')"
    and cls: "hook_class h = MessageContainsHook attrs"
    and msg: "message u = Some m" "msg_text m = Some raw"
    and n: "n = count_list (split_on space (prepare attrs raw)) (match_string attrs)"
  shows "\<exists>w'. call ext b h u w = (Inr (PBool (0 < n)), w')
           \<and> trace w' = trace w @ replicate (if multiple attrs then n else min 1 n) (message_event h m)"
proof -
  from contains_loop_no_raise [OF nr, of b attrs m "split_on space (prepare attrs raw)" "[]" w]
  obtain res' w' where
    l: "contains_loop b h attrs m (split_on space (prepare attrs raw)) [] w = (Inr res', w')"
       "length res' = (if multiple attrs then n else min 1 n)"
       "trace w' = trace w @ replicate (if multiple attrs then n else min 1 n) (message_event h m)"
    using n by auto
  have "0 < length res' \<longleftrightarrow> 0 < n" using l(2) by (auto simp: min_def)
  with l cls msg show ?thesis
    by (simp add: call_def call_dispatch_def MessageContainsHook_call_def)
qed

subsection \<open>The inline hook\<close>

lemma ipc_get_eval:
  "InlineHook_ipc_get sndr w =
     (PInt (case inline_offsets w (user_id sndr) of None \<Rightarrow> 0 | Some v \<Rightarrow> v),
      emit (IpcCommand ''inline.get'' (PInt (user_id sndr))) w)"
  by (simp add: InlineHook_ipc_get_def ipc_command_def)

lemma ipc_update_eval:
  "InlineHook_ipc_update sndr v w =
     (emit (IpcCommand ''inline.update'' (PList [PInt (user_id sndr), PInt v])) w)
       \<lparr>inline_offsets := (inline_offsets w)(user_id sndr \<mapsto> v)\<rparr>"
  by (simp add: InlineHook_ipc_update_def ipc_command_def)

lemma ipc_purge_eval:
  "InlineHook_ipc_purge sndr w =
     (emit (IpcCommand ''inline.purge'' (PInt (user_id sndr))) w)
       \<lparr>inline_offsets := (inline_offsets w)(user_id sndr \<mapsto> 0)\<rparr>"
  by (simp add: InlineHook_ipc_purge_def ipc_command_def)

lemma set_item_dict: "is_dict e \<Longrightarrow> set_item e ''id'' (PInt i) = Inr (with_id i e)"
  by (cases e) simp_all

lemma inline_loop_page:
  "list_all is_dict (gen_take n sliced) \<Longrightarrow>
     inline_loop (map (\<lambda>k. a + int k) [j ..< j + n]) sliced res =
       Inr (res @ map (\<lambda>ie. with_id (fst ie) (snd ie))
                      (zip (map (\<lambda>k. a + int k) [j ..< j + n]) (gen_take n sliced)))"
proof (induction n arbitrary: j sliced res)
  case 0
  show ?case by simp
next
  case (Suc n)
  have up: "[j ..< j + Suc n] = j # [Suc j ..< Suc j + n]"
    by (simp add: upt_conv_Cons)
  show ?case
  proof (cases sliced)
    case Exhausted
    then show ?thesis unfolding up by simp
  next
    case (Yield e g')
    with Suc.prems have d: "is_dict e" "list_all is_dict (gen_take n g')" by simp_all
    from Suc.IH [OF d(2), of "Suc j" "res @ [with_id (a + int j) e]"] Yield d(1)
    show ?thesis unfolding up by (simp add: set_item_dict)
  qed
qed

lemma inline_loop_range:
  assumes "list_all is_dict (gen_take (nat p) (gen_drop (nat offs) g))"
  shows "inline_loop (py_range offs (offs + p)) (gen_drop (nat offs) g) [] = Inr (page offs p g)"
  using inline_loop_page [OF assms, of offs 0 "[]"]
  by (simp add: py_range_def page_def)

lemma InlineHook_call_page:
  assumes iq: "inline_query u = Some q"
    and body: "func_body (func h) [] (inline_kwargs q) (ustate w) = (Inr gen, s')"
    and it: "py_iter gen = Inr g"
    and nonneg: "0 \<le> start_offset q w"
    and dicts: "list_all is_dict (gen_take (nat (paginate attrs)) (gen_drop (nat (start_offset q w)) g))"
  shows "InlineHook_call ext b h attrs u w =
     (api_reply (api b) ''answerInlineQuery'' (answer_args ext attrs q (start_offset q w) g),
      w\<lparr> trace := trace w @
             (if offset q = [] then [IpcCommand ''inline.purge'' (PInt (user_id (sender q)))] else []) @
             [Invoked (func_name (func h)) [] (inline_kwargs q),
              IpcCommand ''inline.get'' (PInt (user_id (sender q))),
              IpcCommand ''inline.update''
                (PList [PInt (user_id (sender q)), PInt (start_offset q w + paginate attrs)]),
              ApiCall ''answerInlineQuery'' (answer_args ext attrs q (start_offset q w) g)],
          inline_offsets := (inline_offsets w)(user_id (sender q) \<mapsto> start_offset q w + paginate attrs),
          ustate := s' \<rparr>)"
proof -
  let ?o = "start_offset q w"
  have sl: "islice gen ?o = Inr (gen_drop (nat ?o) g)"
    using it nonneg by (simp add: islice_def)
  note lp = inline_loop_range [OF dicts]
  show ?thesis
  proof (cases "offset q = []")
    case True
    then have o: "?o = 0" by (simp add: start_offset_def)
    show ?thesis
      using iq body True sl lp unfolding o
      by (simp add: InlineHook_call_def Let_def bot_call_def invoke_def ipc_get_eval
          ipc_update_eval ipc_purge_eval api_call_def emit_def answer_args_def inline_kwargs_def)
  next
    case False
    then have o: "?o = (case inline_offsets w (user_id (sender q)) of None \<Rightarrow> 0 | Some v \<Rightarrow> v)"
      by (simp add: start_offset_def)
    show ?thesis
      using iq body False sl lp unfolding o
      by (simp add: InlineHook_call_def Let_def bot_call_def invoke_def ipc_get_eval
          ipc_update_eval ipc_purge_eval api_call_def emit_def answer_args_def inline_kwargs_def)
  qed
qed




lemma items_from_unfold:
  "items_from k = Yield (PDict [(''title'', PInt k)]) (items_from (k + 1))"
  by (rule items_from.code)

lemma gen_take_items_from:
  "gen_take n (items_from k) = map (\<lambda>j. PDict [(''title'', PInt (k + int j))]) [0 ..< n]"
proof (induction n arbitrary: k)
  case 0
  show ?case by simp
next
  case (Suc n)
  have "gen_take (Suc n) (items_from k) = PDict [(''title'', PInt k)] # gen_take n (items_from (k + 1))"
    by (subst items_from_unfold) simp
  also have "\<dots> = PDict [(''title'', PInt k)] # map (\<lambda>j. PDict [(''title'', PInt (k + 1 + int j))]) [0 ..< n]"
    by (simp add: Suc.IH)
  also have "\<dots> = map (\<lambda>j. PDict [(''title'', PInt (k + int j))]) [0 ..< Suc n]"
    by (simp add: upt_conv_Cons map_Suc_upt [symmetric] del: upt_Suc) 
  finally show ?case .
qed

lemma gen_drop_items_from: "gen_drop n (items_from k) = items_from (k + int n)"
proof (induction n arbitrary: k)
  case 0
  show ?case by simp
next
  case (Suc n)
  have "gen_drop (Suc n) (items_from k) = gen_drop n (items_from (k + 1))"
    by (subst items_from_unfold) simp
  with Suc.IH [of "k + 1"] show ?case by (simp add: add.assoc)
qed

lemma set_item_Inr: "set_item e ''id'' (PInt i) = Inr e' \<Longrightarrow> item_id e' = Some (PInt i)"
  by (cases e) (auto simp: map_of_dict_set)

lemma inline_loop_ids:
  "inline_loop (map (\<lambda>k. a + int k) [j ..< j + n]) g res = Inr results \<Longrightarrow>
     \<exists>new. results = res @ new \<and> length new \<le> n \<and>
           map item_id new = map (\<lambda>k. Some (PInt (a + int k))) [j ..< j + length new]"
proof (induction n arbitrary: j g res)
  case 0
  then show ?case by simp
next
  case (Suc n)
  have upk: "[j ..< j + Suc k] = j # [Suc j ..< Suc j + k]" for k
    by (simp add: upt_conv_Cons)
  note up = upk [of n]
  show ?case
  proof (cases g)
    case Exhausted
    with Suc.prems show ?thesis unfolding up by simp
  next
    case (Yield e g')
    with Suc.prems obtain e' where e': "set_item e ''id'' (PInt (a + int j)) = Inr e'"
        and rec: "inline_loop (map (\<lambda>k. a + int k) [Suc j ..< Suc j + n]) g' (res @ [e']) = Inr results"
      unfolding up by (auto split: sum.splits)
    from Suc.IH [OF rec] obtain new where new: "results = (res @ [e']) @ new" "length new \<le> n"
        "map item_id new = map (\<lambda>k. Some (PInt (a + int k))) [Suc j ..< Suc j + length new]"
      by blast
    have "[j ..< j + length (e' # new)] = j # [Suc j ..< Suc j + length new]"
      using upk [of "length new"] by simp
    with new set_item_Inr [OF e'] show ?thesis
      by (intro exI [of _ "e' # new"]) simp
  qed
qed

lemma InlineHook_call_responses:
  "\<exists>evs. trace (snd (InlineHook_call ext b h attrs u w)) = trace w @ evs
         \<and> list_all (response_ok ext attrs) evs"
proof (cases "inline_query u")
  case None
  then show ?thesis by (simp add: InlineHook_call_def)
next
  case (Some q)
  let ?sid = "user_id (sender q)"
  let ?w1 = "if offset q = [] then InlineHook_ipc_purge (sender q) w else w"
  have t1: "\<exists>evs. trace ?w1 = trace w @ evs \<and> list_all (response_ok ext attrs) evs"
    by (simp add: ipc_purge_eval emit_def response_ok_def)
  obtain r w2 where bc: "bot_call b (func h) (component_id h) (inline_kwargs q) ?w1 = (r, w2)"
    by (cases "bot_call b (func h) (component_id h) (inline_kwargs q) ?w1")
  then have t2: "trace w2 = trace ?w1 @ [Invoked (func_name (func h)) [] (inline_kwargs q)]"
    by (auto simp: bot_call_def invoke_def emit_def split: prod.splits)
  have t2': "\<exists>evs. trace w2 = trace w @ evs \<and> list_all (response_ok ext attrs) evs"
    using t1 t2 by (auto simp: response_ok_def)
  show ?thesis
  proof (cases r)
    case (Inl e)
    with Some bc t2' show ?thesis
      by (simp add: InlineHook_call_def Let_def inline_kwargs_def)
  next
    case (Inr gen)
    let ?offs = "case inline_offsets w2 ?sid of None \<Rightarrow> 0 | Some v \<Rightarrow> v"
    let ?w3 = "emit (IpcCommand ''inline.get'' (PInt ?sid)) w2"
    let ?w4 = "InlineHook_ipc_update (sender q) (?offs + paginate attrs) ?w3"
    have t4: "\<exists>evs. trace ?w4 = trace w @ evs \<and> list_all (response_ok ext attrs) evs"
      using t2' by (auto simp: ipc_update_eval emit_def response_ok_def)
    have step: "InlineHook_call ext b h attrs u w =
        (case islice gen ?offs of
           Inl e \<Rightarrow> (Inl e, ?w4)
         | Inr sliced \<Rightarrow>
            (case inline_loop (py_range ?offs (?offs + paginate attrs)) sliced [] of
               Inl e \<Rightarrow> (Inl e, ?w4)
             | Inr results \<Rightarrow>
                 api_call b ''answerInlineQuery''
                   [(''inline_query_id'', PStr (inline_id q)),
                    (''cache_time'', PInt (cache attrs)),
                    (''is_personal'', PBool (inline_private attrs)),
                    (''results'', PStr (json_dumps ext (PList results))),
                    (''next_offset'', PInt (?offs + paginate attrs))] ?w4))"
      using Some bc Inr
      by (simp add: InlineHook_call_def Let_def inline_kwargs_def ipc_get_eval)
    show ?thesis
    proof (cases "islice gen ?offs")
      case (Inl e)
      with step t4 show ?thesis by simp
    next
      case sl: (Inr sliced)
      show ?thesis
      proof (cases "inline_loop (py_range ?offs (?offs + paginate attrs)) sliced []")
        case (Inl e)
        with step sl t4 show ?thesis by simp
      next
        case lp: (Inr results)
        from inline_loop_ids [of ?offs 0 "nat (paginate attrs)" sliced "[]" results] lp
        have ids: "map item_id results =
            map (\<lambda>i. Some (PInt i)) (py_range ?offs (?offs + int (length results)))"
          by (auto simp: py_range_def)
        from t4 obtain evs where evs: "trace ?w4 = trace w @ evs" "list_all (response_ok ext attrs) evs"
          by blast
        have "response_ok ext attrs (ApiCall ''answerInlineQuery''
                   [(''inline_query_id'', PStr (inline_id q)),
                    (''cache_time'', PInt (cache attrs)),
                    (''is_personal'', PBool (inline_private attrs)),
                    (''results'', PStr (json_dumps ext (PList results))),
                    (''next_offset'', PInt (?offs + paginate attrs))])"
          unfolding response_ok_def using ids by auto
        with step sl lp evs show ?thesis
          by (simp add: api_call_def emit_def)
      qed
    qed
  qed
qed

subsection \<open>The claims\<close>




lemma demo_bot_eval:
  "commands demo_bot = [(''foo'', returning ''foo_handler'' PNone)]"
  "commands_re demo_bot = bot_commands_re ''mybot''"
  "default_commands demo_bot = [(''help'', DefaultHelp), (''start'', DefaultStart)]"
  "itself demo_bot = demo_me"
  by (simp_all add: demo_bot_def command_def command_apply_def Bot_init_def dict_keys_def demo_me_def)

lemma demo_bot_invariant: "bot_invariant demo_bot"
  by (simp add: bot_invariant_def demo_bot_eval demo_me_def word_char_def)

lemma demo_get_commands:
  "get_commands demo_bot =
     [(''help'', DefaultHelp), (''start'', DefaultStart), (''foo'', UserCommand (returning ''foo_handler'' PNone))]"
  by (simp add: get_commands_def dict_update_def demo_bot_eval)

lemma word_foo: "list_all word_char ''foo''"
  by (simp add: word_char_def)

text \<open>
  C2. The handler of a registered command is called once, with the pieces of the text
  between runs of spaces, the leading command token left out. On the text
  \<^verbatim>\<open>/foo bar baz\<close> both \<^verbatim>\<open>CommandHook._call\<close> and
  \<^verbatim>\<open>Bot._process_commands\<close> do so (lemma \<open>command_args_example\<close>), and
  \<^verbatim>\<open>CommandHook._call\<close> does so on every text (lemmas
  \<open>CommandHook_call_invokes\<close> and \<open>CommandHook_call_claimed\<close>). But
  \<^verbatim>\<open>Bot._process_commands\<close> splits at every single space: on the text
  \<^verbatim>\<open>/foo  bar\<close>, with two spaces, the handler of foo is called with the
  arguments \<^verbatim>\<open>['', 'bar']\<close>, where the split on runs of spaces gives
  \<^verbatim>\<open>['bar']\<close>.
\<close>

theorem process_commands_two_spaces:
  "fst (process_commands demo_ext demo_bot (GroupChat 5) (demo_message ''/foo  bar'') demo_world)
     = Inr (PBool True)
   \<and> trace (snd (process_commands demo_ext demo_bot (GroupChat 5) (demo_message ''/foo  bar'') demo_world))
     = [Invoked ''foo_handler''
          [AChat (GroupChat 5), AMessage (demo_message ''/foo  bar''), AArgs ['''', ''bar'']] []]
   \<and> tl (split_spaces ''/foo  bar'') = [''bar'']"
proof -
  have "''/foo  bar'' = ''/'' @ ''foo'' @ (space # '' bar'')" by (simp add: space_def)
  moreover have "newline \<notin> set '' bar''" by (simp add: newline_def)
  ultimately obtain g where g: "re_match (bot_commands_re ''mybot'') ''/foo  bar'' = Some g"
      "g 1 = Some ''foo''"
    using bot_re_match_word [of "''foo''" "'' bar''" "space # '' bar''" "''mybot''"] word_foo
    by auto
  have sp: "split_on space ''/foo  bar'' = [''/foo'', '''', ''bar'']"
    by (simp add: space_def)
  have ss: "tl (split_spaces ''/foo  bar'') = [''bar'']"
    by (simp add: space_def)
  show ?thesis
    using g sp ss
    by (simp add: process_commands_def demo_message_def demo_bot_eval demo_get_commands Let_def
        run_command_def invoke_def returning_def emit_def demo_world_def)
qed

lemma command_args_example:
  "trace (snd (process_commands demo_ext demo_bot (GroupChat 5) (demo_message ''/foo bar baz'') demo_world))
     = [Invoked ''foo_handler''
          [AChat (GroupChat 5), AMessage (demo_message ''/foo bar baz''), AArgs [''bar'', ''baz'']] []]
   \<and> trace (snd (call demo_ext demo_bot demo_command_hook (demo_update ''/foo bar baz'') demo_world))
     = [Invoked ''foo_handler'' []
          [(''chat'', AChat (GroupChat 5)), (''message'', AMessage (demo_message ''/foo bar baz'')),
           (''args'', AArgs [''bar'', ''baz''])]]"
proof -
  have "''/foo bar baz'' = ''/'' @ ''foo'' @ (space # ''bar baz'')" by (simp add: space_def)
  moreover have "newline \<notin> set ''bar baz''" by (simp add: newline_def)
  ultimately obtain g where g: "re_match (bot_commands_re ''mybot'') ''/foo bar baz'' = Some g"
      "g 1 = Some ''foo''"
    using bot_re_match_word [of "''foo''" "''bar baz''" "space # ''bar baz''" "''mybot''"] word_foo
    by auto
  have sp: "split_on space ''/foo bar baz'' = [''/foo'', ''bar'', ''baz'']"
    by (simp add: space_def)
  have a: "trace (snd (process_commands demo_ext demo_bot (GroupChat 5) (demo_message ''/foo bar baz'') demo_world))
     = [Invoked ''foo_handler''
          [AChat (GroupChat 5), AMessage (demo_message ''/foo bar baz''), AArgs [''bar'', ''baz'']] []]"
    using g sp
    by (simp add: process_commands_def demo_message_def demo_bot_eval demo_get_commands Let_def
        run_command_def invoke_def returning_def emit_def demo_world_def)
  let ?args = "\<lparr> arg_name = ''foo'', arg_hidden = None, arg_order = None \<rparr>"
  let ?attrs = "\<lparr> cmd_regex = command_regex ''foo'', cmd_name = ''foo'', cmd_hidden = False, cmd_order = 0 \<rparr>"
  have "re_match command_name_re ''foo'' \<noteq> None"
    unfolding command_name_re_match using word_foo by (intro exI [of _ "''foo''"]) simp
  then have init: "CommandHook_after_init ?args = Inr ?attrs"
    by (auto simp: CommandHook_after_init_def)
  have nz: "normalize ''/foo bar baz'' = ''/'' @ arg_name ?args @ [] @ '' bar baz''"
    by (simp add: normalize_def replace_char_def newline_def tab_def)
  have m: "message (demo_update ''/foo bar baz'') = Some (demo_message ''/foo bar baz'')"
      "msg_text (demo_message ''/foo bar baz'') = Some ''/foo bar baz''"
    by (simp_all add: demo_update_def demo_message_def)
  have sps: "tl (split_spaces (normalize ''/foo bar baz'')) = [''bar'', ''baz'']"
    by (simp add: normalize_def replace_char_def newline_def tab_def space_def)
  from CommandHook_call_invokes(1) [OF init m nz, of demo_bot demo_command_hook demo_world]
  have "CommandHook_call demo_bot demo_command_hook ?attrs (demo_update ''/foo bar baz'') demo_world =
     (case bot_call demo_bot (func demo_command_hook) (component_id demo_command_hook)
             [(''chat'', AChat (msg_chat (demo_message ''/foo bar baz''))),
              (''message'', AMessage (demo_message ''/foo bar baz'')),
              (''args'', AArgs [''bar'', ''baz''])] demo_world of
        (Inl e, w') \<Rightarrow> (Inl e, w')
      | (Inr r, w') \<Rightarrow> (Inr (PBool True), w'))"
    by (simp add: sps space_def)
  then have b: "trace (snd (call demo_ext demo_bot demo_command_hook (demo_update ''/foo bar baz'') demo_world))
     = [Invoked ''foo_handler'' []
          [(''chat'', AChat (GroupChat 5)), (''message'', AMessage (demo_message ''/foo bar baz'')),
           (''args'', AArgs [''bar'', ''baz''])]]"
    using m
    by (simp add: call_def call_dispatch_def demo_command_hook_def Hook_init_def bot_call_def
        invoke_def returning_def emit_def demo_world_def demo_message_def)
  from a b show ?thesis by simp
qed



lemma call_InlineHook:
  "hook_class h = InlineHook attrs \<Longrightarrow> call ext b h u w = InlineHook_call ext b h attrs u w"
  by (simp add: call_def call_dispatch_def)


lemma demo_inline_facts:
  "hook_class demo_inline_hook = InlineHook (InlineHook_after_init 300 True 5 0)"
  "func demo_inline_hook = returning ''search'' (PIter (items_from 0))"
  "inline_query (demo_inline_update offs)
     = Some \<lparr> inline_id = ''q1'', sender = \<lparr> user_id = 42, username = ''ann'' \<rparr>,
              query = ''cats'', offset = offs \<rparr>"
  "paginate (InlineHook_after_init 300 True 5 0) = 5"
  by (simp_all add: demo_inline_hook_def Hook_init_def demo_inline_update_def InlineHook_after_init_def)

lemma items_from_dicts: "list_all is_dict (gen_take n (gen_drop k (items_from j)))"
  by (simp add: gen_drop_items_from gen_take_items_from list_all_iff)



text \<open>
  C5 as stated fails: the text is not tokenized on whitespace. In the text hi, tab,
  there, the token hi is one of the whitespace-separated tokens, but the hook does
  not call the handler and returns False, since the text has no space.
\<close>

theorem message_contains_whitespace_counterexample:
  "''hi'' \<in> set (split_whitespace (''hi'' @ [tab] @ ''there''))
   \<and> call demo_ext demo_bot (demo_contains_hook False)
        (demo_update (''hi'' @ [tab] @ ''there'')) demo_world = (Inr (PBool False), demo_world)"
  by (simp add: call_def call_dispatch_def MessageContainsHook_call_def Hook_init_def
      MessageEqualsHook_after_init_def demo_update_def demo_message_def prepare_def
      tab_def space_def is_whitespace_def demo_contains_hook_def)

text \<open>
  C5, as amended. The text (in lower case if the hook ignores case) is split at every
  single space character. With a handler that does not raise, and \<open>n\<close> the number of
  pieces equal to the configured string: the handler is called \<open>n\<close> times if
  \<open>multiple\<close> is set, and once if it is not and \<open>n\<close> is positive (also when \<open>n\<close> is two
  or more); the hook returns True if \<open>n\<close> is positive and False otherwise.
\<close>

theorem message_contains_invocations:
  assumes nr: "\<And>kw s. \<exists>v s'. func_body (func h) [] kw s = (Inr v, s')"
    and cls: "hook_class h = MessageContainsHook attrs"
    and msg: "message u = Some m" "msg_text m = Some raw"
    and n: "n = count_list (split_on space (prepare attrs raw)) (match_string attrs)"
  shows "\<exists>w'. call ext b h u w = (Inr (PBool (0 < n)), w')
           \<and> trace w' = trace w @ replicate (if multiple attrs then n else min 1 n) (message_event h m)"
  using MessageContainsHook_call_counts [OF nr cls msg n] .

text \<open>
  The string hi in a text with two occurrences: one call without \<open>multiple\<close>, two
  with it; no call and False on a text without it.
\<close>

theorem message_contains_invocations_witness:
  "fst (call demo_ext demo_bot (demo_contains_hook False) (demo_update ''hi you hi'') demo_world)
     = Inr (PBool True)
   \<and> length (trace (snd (call demo_ext demo_bot (demo_contains_hook False) (demo_update ''hi you hi'') demo_world))) = 1
   \<and> length (trace (snd (call demo_ext demo_bot (demo_contains_hook True) (demo_update ''hi you hi'') demo_world))) = 2
   \<and> fst (call demo_ext demo_bot (demo_contains_hook True) (demo_update ''hello'') demo_world)
     = Inr (PBool False)"
proof -
  let ?attrs = "\<lambda>mlt. MessageEqualsHook_after_init ''hi'' False mlt"
  have nr: "\<exists>v s'. func_body (func (demo_contains_hook mlt)) [] kw s = (Inr v, s')" for mlt kw s
    by (simp add: demo_contains_hook_def Hook_init_def returning_def)
  have cls: "hook_class (demo_contains_hook mlt) = MessageContainsHook (?attrs mlt)" for mlt
    by (simp add: demo_contains_hook_def Hook_init_def)
  have msg: "message (demo_update s) = Some (demo_message s)" "msg_text (demo_message s) = Some s" for s
    by (simp_all add: demo_update_def demo_message_def)
  have c2: "count_list (split_on space (prepare (?attrs mlt) ''hi you hi'')) (match_string (?attrs mlt)) = 2" for mlt
    by (simp add: prepare_def MessageEqualsHook_after_init_def space_def)
  have c0: "count_list (split_on space (prepare (?attrs mlt) ''hello'')) (match_string (?attrs mlt)) = 0" for mlt
    by (simp add: prepare_def MessageEqualsHook_after_init_def space_def)
  note t = message_contains_invocations [where ext = demo_ext and b = demo_bot and w = demo_world,
      OF nr cls msg]
  from t [of 2 False "''hi you hi''"] c2 [of False]
  have a: "fst (call demo_ext demo_bot (demo_contains_hook False) (demo_update ''hi you hi'') demo_world)
      = Inr (PBool True)"
    "length (trace (snd (call demo_ext demo_bot (demo_contains_hook False) (demo_update ''hi you hi'') demo_world))) = 1"
    by (auto simp: MessageEqualsHook_after_init_def demo_world_def)
  from t [of 2 True "''hi you hi''"] c2 [of True]
  have b: "length (trace (snd (call demo_ext demo_bot (demo_contains_hook True) (demo_update ''hi you hi'') demo_world))) = 2"
    by (auto simp: MessageEqualsHook_after_init_def demo_world_def)
  from t [of 0 True "''hello''"] c0 [of True]
  have c: "fst (call demo_ext demo_bot (demo_contains_hook True) (demo_update ''hello'') demo_world)
     = Inr (PBool False)"
    by (auto simp: MessageEqualsHook_after_init_def demo_world_def)
  from a b c show ?thesis by simp
qed

lemma call_CommandHook:
  assumes "hook_class h = CommandHook attrs" "message u = Some m" "msg_text m = Some raw"
  shows "call ext b h u w = CommandHook_call b h attrs u w"
  using assms by (simp add: call_def call_dispatch_def)

lemma CommandHook_new_Inr:
  assumes "CommandHook_new f cpt args = Inr h"
  shows "\<exists>attrs. CommandHook_after_init args = Inr attrs \<and> hook_class h = CommandHook attrs
           \<and> func h = f"
  using assms by (auto simp: CommandHook_new_def Hook_init_def Let_def split: sum.splits)

text \<open>
  C6. A message \<^verbatim>\<open>/cmd@suffix\<close>, followed by nothing or by a character that
  cannot continue the suffix, where the suffix is not the username of the bot: every
  command hook returns None without calling its handler, and
  \<^verbatim>\<open>Bot._process_commands\<close> returns None, calls no command and sends no
  notice (the world is unchanged in both cases).
\<close>

theorem command_for_other_bot_not_applicable:
  assumes shape: "list_all word_char cmd" "list_all word_char sfx" "rest = [] \<or> \<not> word_char (hd rest)"
    and other: "sfx \<noteq> username (itself b)"
    and msg: "message u = Some m" "msg_text m = Some (''/'' @ cmd @ ''@'' @ sfx @ rest)"
  shows "(CommandHook_new f cpt args = Inr h \<longrightarrow> call ext b h u w = (Inr PNone, w))
       \<and> (bot_invariant b \<longrightarrow> process_commands ext b (msg_chat m) m w = (Inr PNone, w))"
proof (intro conjI impI)
  assume "CommandHook_new f cpt args = Inr h"
  from CommandHook_new_Inr [OF this] obtain attrs where
    a: "CommandHook_after_init args = Inr attrs" "hook_class h = CommandHook attrs"
    by blast
  from CommandHook_call_other_bot [OF a(1) msg shape other] call_CommandHook [OF a(2) msg]
  show "call ext b h u w = (Inr PNone, w)" by simp
next
  assume "bot_invariant b"
  then show "process_commands ext b (msg_chat m) m w = (Inr PNone, w)"
    using process_commands_other_bot [OF _ msg(2) shape other] by blast
qed

lemma demo_command_hook_new:
  "CommandHook_new (returning ''foo_handler'' PNone) demo_component
     \<lparr> arg_name = ''foo'', arg_hidden = None, arg_order = None \<rparr> = Inr demo_command_hook"
proof -
  have "re_match command_name_re ''foo'' \<noteq> None"
    unfolding command_name_re_match using word_foo by (intro exI [of _ "''foo''"]) simp
  then show ?thesis
    by (auto simp: CommandHook_new_def CommandHook_after_init_def demo_command_hook_def)
qed

text \<open>
  The command foo sent to otherbot, received by mybot.
\<close>

theorem command_for_other_bot_not_applicable_witness:
  "call demo_ext demo_bot demo_command_hook (demo_update ''/foo@otherbot bar'') demo_world
     = (Inr PNone, demo_world)
   \<and> process_commands demo_ext demo_bot (GroupChat 5) (demo_message ''/foo@otherbot bar'') demo_world
     = (Inr PNone, demo_world)"
proof -
  have shape: "list_all word_char ''foo''" "list_all word_char ''otherbot''"
      "'' bar'' = [] \<or> \<not> word_char (hd '' bar'')"
    by (simp_all add: word_char_def)
  have other: "''otherbot'' \<noteq> username (itself demo_bot)"
    by (simp add: demo_bot_eval demo_me_def)
  have msg: "message (demo_update ''/foo@otherbot bar'') = Some (demo_message ''/foo@otherbot bar'')"
      "msg_text (demo_message ''/foo@otherbot bar'') = Some (''/'' @ ''foo'' @ ''@'' @ ''otherbot'' @ '' bar'')"
    by (simp_all add: demo_update_def demo_message_def)
  have un: "bot_invariant demo_bot"
    by (rule demo_bot_invariant)
  from command_for_other_bot_not_applicable [OF shape other msg,
      of "returning ''foo_handler'' PNone" demo_component
         "\<lparr> arg_name = ''foo'', arg_hidden = None, arg_order = None \<rparr>" demo_command_hook
         demo_ext demo_world]
    demo_command_hook_new un
  show ?thesis by (simp add: demo_message_def)
qed

text \<open>
  C7 as stated fails: after a first page with page size 5 the field next_offset of
  the answer is the integer 5, not the string "5".
\<close>

theorem inline_next_offset_counterexample:
  "map_of (api_args (last (trace (snd (call demo_ext demo_bot demo_inline_hook
       (demo_inline_update '''') demo_world))))) ''next_offset'' = Some (PInt 5)
   \<and> map_of (api_args (last (trace (snd (call demo_ext demo_bot demo_inline_hook
       (demo_inline_update '''') demo_world))))) ''next_offset'' \<noteq> Some (PStr ''5'')"
proof -
  let ?attrs = "InlineHook_after_init 300 True 5 0"
  let ?q = "\<lparr> inline_id = ''q1'', sender = \<lparr> user_id = 42, username = ''ann'' \<rparr>,
               query = ''cats'', offset = '''' \<rparr>"
  have s0: "start_offset ?q demo_world = 0" by (simp add: start_offset_def)
  have cls: "hook_class demo_inline_hook = InlineHook ?attrs"
    by (simp add: demo_inline_facts)
  have iq: "inline_query (demo_inline_update '''') = Some ?q"
    by (simp add: demo_inline_facts)
  have body: "func_body (func demo_inline_hook) [] (inline_kwargs ?q) (ustate demo_world)
      = (Inr (PIter (items_from 0)), ())"
    by (simp add: demo_inline_facts returning_def)
  have it: "py_iter (PIter (items_from 0)) = Inr (items_from 0)" by simp
  have n0: "0 \<le> start_offset ?q demo_world" by (simp add: s0)
  have d0: "list_all is_dict (gen_take (nat (paginate ?attrs))
      (gen_drop (nat (start_offset ?q demo_world)) (items_from 0)))"
    by (rule items_from_dicts)
  from InlineHook_call_page [where ext = demo_ext and b = demo_bot, OF iq body it n0 d0]
  have "last (trace (snd (call demo_ext demo_bot demo_inline_hook (demo_inline_update '''') demo_world)))
      = ApiCall ''answerInlineQuery'' (answer_args demo_ext ?attrs ?q 0 (items_from 0))"
    unfolding call_InlineHook [OF cls] s0 by simp
  then show ?thesis
    by (simp add: answer_args_def InlineHook_after_init_def)
qed

text \<open>
  C7, as amended. Every platform call that the inline hook makes is
  answerInlineQuery with the fields inline_query_id, cache_time, is_personal,
  results and next_offset, in which results is the serialized list of the items,
  each with its positional id, and next_offset is the integer offset plus page size
  (an integer, not a string).
\<close>

theorem inline_response_shape:
  assumes "hook_class h = InlineHook attrs"
  shows "\<exists>evs. trace (snd (call ext b h u w)) = trace w @ evs
           \<and> list_all (response_ok ext attrs) evs"
  unfolding call_InlineHook [OF assms] by (rule InlineHook_call_responses)

text \<open>
  The events of the demo hook on a first query all have this shape.
\<close>

theorem inline_response_shape_witness:
  "list_all (response_ok demo_ext (InlineHook_after_init 300 True 5 0))
     (trace (snd (call demo_ext demo_bot demo_inline_hook (demo_inline_update '''') demo_world)))"
proof -
  have cls: "hook_class demo_inline_hook = InlineHook (InlineHook_after_init 300 True 5 0)"
    by (simp add: demo_inline_facts)
  from inline_response_shape [OF cls, of demo_ext demo_bot "demo_inline_update ''''" demo_world]
  show ?thesis by (auto simp: demo_world_def)
qed



text \<open>
  C9. For a name that is not a key of the commands (default or registered), the
  default help command called with this one argument sends exactly the reply
  \<^verbatim>\<open>Error: Unknow command: /name\<close>, newline,
  \<^verbatim>\<open>Use /help for a list of commands.\<close>; and so does the dispatch of the
  message \<^verbatim>\<open>/help name\<close> when help is not overridden and the name has no
  space and no newline.
\<close>

theorem help_unknown_command:
  assumes "nm \<notin> set (dict_keys (get_commands b))"
  shows "default_help_command ext b c m [nm] w =
           (Inr PNone, send c (''Error: Unknow command: /'' @ nm @ [newline] @
                               ''Use /help for a list of commands.'') w)
       \<and> (bot_invariant b \<and> ''help'' \<notin> set (dict_keys (commands b))
            \<and> space \<notin> set nm \<and> newline \<notin> set nm \<and> msg_text m = Some (''/help '' @ nm) \<longrightarrow>
          process_commands ext b c m w =
           (Inr (PBool True), send c (''Error: Unknow command: /'' @ nm @ [newline] @
                               ''Use /help for a list of commands.'') w))"
  using help_unknown_direct [OF assms] help_unknown_dispatch [OF assms] by blast

text \<open>
  The message /help unknown_cmd to the demo bot.
\<close>

theorem help_unknown_command_witness:
  "process_commands demo_ext demo_bot (User 9)
      \<lparr> msg_chat = User 9, msg_text = Some ''/help unknown_cmd'' \<rparr> demo_world
     = (Inr (PBool True),
        demo_world\<lparr>trace := [Sent (User 9)
           (''Error: Unknow command: /unknown_cmd'' @ [newline] @ ''Use /help for a list of commands.'')]\<rparr>)"
proof -
  have k: "''unknown_cmd'' \<notin> set (dict_keys (get_commands demo_bot))"
    by (simp add: demo_get_commands dict_keys_def)
  have h: "bot_invariant demo_bot \<and> ''help'' \<notin> set (dict_keys (commands demo_bot))
      \<and> space \<notin> set ''unknown_cmd'' \<and> newline \<notin> set ''unknown_cmd''
      \<and> msg_text \<lparr> msg_chat = User 9, msg_text = Some ''/help unknown_cmd'' \<rparr>
          = Some (''/help '' @ ''unknown_cmd'')"
    by (simp add: demo_bot_invariant demo_bot_eval dict_keys_def space_def newline_def)
  from help_unknown_command [OF k, of demo_ext "User 9"
      "\<lparr> msg_chat = User 9, msg_text = Some ''/help unknown_cmd'' \<rparr>" demo_world] h
  show ?thesis by (simp add: send_def emit_def demo_world_def)
qed

end
